theory Spec2Isabelle
  imports Complex_Main "HOL-Library.Word" "HOL-Library.Signed_Division" "HOL-Library.AList"
begin

section \<open>Face signatures and the matcher (main.cpp, recognizeFace)\<close>

text \<open>
  A face signature is a 200 x 200 single-channel 8-bit image (\<open>CV_8UC1\<close>): both the
  enrolled faces (\<open>extractFace\<close>) and the live regions of interest (\<open>runAttendance\<close>)
  come from \<open>cvtColor(.., COLOR_BGR2GRAY)\<close> followed by \<open>resize(.., Size(200,200))\<close>.
  The pixels are kept in row-major order as a list of bytes.
\<close>

type_synonym pixel = "8 word"
type_synonym signature = "pixel list"

text \<open>
  \<open>absdiff\<close> on two \<open>CV_8U\<close> arrays: the per-element absolute difference, again 8 bit
  (the difference of two bytes always fits).
\<close>

definition absdiff_px :: "pixel \<Rightarrow> pixel \<Rightarrow> pixel" where
  "absdiff_px a b = (if a \<le> b then b - a else a - b)"

definition absdiff :: "signature \<Rightarrow> signature \<Rightarrow> signature" where
  "absdiff xs ys = map (\<lambda>(a, b). absdiff_px a b) (zip xs ys)"

text \<open>
  \<open>diff.mul(diff)\<close>: the per-element product of two \<open>CV_8U\<close> arrays. The result array
  has the depth of its operands, and each product goes through
  \<open>saturate_cast\<close> to \<open>uchar\<close>: a product above 255 is stored as 255.
\<close>

definition saturate_u8 :: "nat \<Rightarrow> pixel" where
  "saturate_u8 n = (if 255 < n then 255 else of_nat n)"

definition mul_px :: "pixel \<Rightarrow> pixel \<Rightarrow> pixel" where
  "mul_px a b = saturate_u8 (unat a * unat b)"

definition mul :: "signature \<Rightarrow> signature \<Rightarrow> signature" where
  "mul xs ys = map (\<lambda>(a, b). mul_px a b) (zip xs ys)"

text \<open>
  \<open>sum(m)[0]\<close>: the sum of all elements, accumulated in a \<open>double\<close>. Every value that
  occurs here is an integer far below \<open>2 ^ 53\<close>, so the sum is exact; the quotient by
  \<open>200.0*200.0\<close> is rounded, but rounding is monotone and two different sums give
  quotients at least \<open>1/40000\<close> apart, so every comparison the code makes on the
  rounded quotients has the outcome it has on the exact ones. The model computes
  with exact reals.
\<close>

definition sum_px :: "signature \<Rightarrow> real" where
  "sum_px m = real (sum_list (map unat m))"

definition mse :: "signature \<Rightarrow> signature \<Rightarrow> real" where
  "mse face known = (let diff = absdiff face known in sum_px (mul diff diff) / (200 * 200))"

definition DBL_MAX :: real where
  "DBL_MAX = (2 - 1 / 2 ^ 52) * 2 ^ 1023"

text \<open>
  \<open>known_faces\<close> is an \<open>unordered_map\<close> from \<open>string\<close> to \<open>Mat\<close>: a finite map with unique keys
  whose iteration order the language leaves unspecified. The gallery is modelled by
  the sequence of entries in the order in which the \<open>for(auto &kv : known_faces)\<close>
  loop visits them. That order is not the order of insertion: it is fixed by the
  hash table of the implementation, and enters the model as an input of the
  constructor (\<open>visit_rank\<close> below).
\<close>

type_synonym gallery = "(string \<times> signature) list"

text \<open>
  The loop of \<open>recognizeFace\<close>, on the pair \<open>(best_name, min_mse)\<close>. The rejection
  threshold, the literal \<open>1500.0\<close> of the source, is a parameter of the loop so that
  statements about other thresholds can be made; \<open>recognizeFace\<close> fixes it.
\<close>

fun match_loop :: "real \<Rightarrow> signature \<Rightarrow> gallery \<Rightarrow> string \<times> real \<Rightarrow> string \<times> real" where
  "match_loop thr face [] acc = acc"
| "match_loop thr face ((name, known) # kvs) (best_name, min_mse) =
     (let m = mse face known in
      if m < min_mse \<and> m < thr
      then match_loop thr face kvs (name, m)
      else match_loop thr face kvs (best_name, min_mse))"

definition recognizeFace_thr :: "real \<Rightarrow> gallery \<Rightarrow> signature \<Rightarrow> string" where
  "recognizeFace_thr thr known_faces face =
     fst (match_loop thr face known_faces (''Unknown'', DBL_MAX))"

definition recognizeFace :: "gallery \<Rightarrow> signature \<Rightarrow> string" where
  "recognizeFace known_faces face = recognizeFace_thr 1500 known_faces face"

text \<open>
  The distance in the words of the specification: the mean, over all pixels, of the
  squared intensity differences.
\<close>

definition mean_squared_difference :: "signature \<Rightarrow> signature \<Rightarrow> real" where
  "mean_squared_difference q g =
     real_of_int (sum_list (map (\<lambda>(a, b). (uint a - uint b) ^ 2) (zip q g))) / real (length q)"


section \<open>The attendance system of main.cpp\<close>

subsection \<open>State\<close>

text \<open>
  The fields of \<open>class AttendanceSystem\<close> that the program reads and writes. \<open>ledger\<close>
  is the content of the file named by \<open>attendance_file\<close>; times are readings of
  \<open>chrono::steady_clock\<close> in nanoseconds (its tick on the mainstream standard
  libraries).
\<close>

record system =
  ledger :: string
  attendance_set :: "string set"
  known_faces :: gallery
  last_mark_time :: "string \<rightharpoonup> int"
  current_date :: string

definition mark_cooldown :: int where
  "mark_cooldown = 10 * 1000000000"

definition days :: "string list" where
  "days = [''Sun'', ''Mon'', ''Tue'', ''Wed'', ''Thu'', ''Fri'', ''Sat'']"

text \<open>\<open>getCurrentDay\<close>, from the \<open>tm_wday\<close> that \<open>localtime\<close> returns (0 to 6).\<close>

definition getCurrentDay :: "nat \<Rightarrow> string" where
  "getCurrentDay tm_wday = days ! tm_wday"

subsection \<open>loadAttendance\<close>

text \<open>
  The lines that repeated \<open>getline\<close> calls deliver: the text between line feeds, with
  a last line that lacks its line feed delivered too, and no line after a final
  line feed.
\<close>

fun getlines :: "string \<Rightarrow> string list" where
  "getlines [] = []"
| "getlines (c # cs) =
     (if c = CHR 0x0A then [] # getlines cs
      else (case getlines cs of [] \<Rightarrow> [[c]] | l # ls \<Rightarrow> (c # l) # ls))"

text \<open>\<open>line.find(ch, pos)\<close>; \<open>None\<close> is \<open>string::npos\<close>.\<close>

definition find_char :: "string \<Rightarrow> char \<Rightarrow> nat \<Rightarrow> nat option" where
  "find_char line ch pos =
     (case filter (\<lambda>i. line ! i = ch) [pos ..< length line] of [] \<Rightarrow> None | i # _ \<Rightarrow> Some i)"

definition substr :: "string \<Rightarrow> nat \<Rightarrow> nat \<Rightarrow> string" where
  "substr line pos n = take n (drop pos line)"

text \<open>
  One round of the \<open>while (getline(file, line))\<close> loop. \<open>c2\<close> is searched from
  \<open>c1 + 1\<close> before \<open>c1\<close> is tested; for \<open>c1 = npos\<close> the unsigned sum wraps to 0.
\<close>

definition load_line :: "string \<Rightarrow> string set \<Rightarrow> string \<Rightarrow> string set" where
  "load_line today marked line =
     (let c1 = find_char line CHR '','' 0;
          c2 = find_char line CHR '','' (case c1 of None \<Rightarrow> 0 | Some i \<Rightarrow> i + 1)
      in case (c1, c2) of
           (Some i, Some j) \<Rightarrow>
             (let name = substr line 0 i; date = substr line (i + 1) (j - i - 1)
              in if date = today then insert name marked else marked)
         | _ \<Rightarrow> marked)"

definition loadAttendance :: "bool \<Rightarrow> system \<Rightarrow> system" where
  "loadAttendance is_open s =
     (if \<not> is_open then s
      else s\<lparr>attendance_set := foldl (load_line (current_date s)) (attendance_set s) (getlines (ledger s))\<rparr>)"

subsection \<open>markAttendance\<close>

text \<open>
  What one call reads from outside the object: the steady clock, whether the
  \<open>ofstream\<close> on the attendance file opens, and the weekday of the system clock.
\<close>

record mark_env =
  steady_now :: int
  file_opens :: bool
  tm_wday :: nat

type_synonym attendance_record = "string \<times> string \<times> string"

definition record_line :: "attendance_record \<Rightarrow> string" where
  "record_line r = (case r of (name, date, day) \<Rightarrow> name @ '','' @ date @ '','' @ day @ [CHR 0x0A])"

text \<open>The four ways through \<open>markAttendance\<close>; the last carries the record written.\<close>

datatype mark_outcome =
    Cooldown
  | Already_marked
  | Not_written
  | Appended attendance_record

definition markAttendance :: "mark_env \<Rightarrow> string \<Rightarrow> system \<Rightarrow> system \<times> mark_outcome" where
  "markAttendance e name s =
     (if (case last_mark_time s name of
            None \<Rightarrow> False
          | Some t \<Rightarrow> steady_now e - t < mark_cooldown)
      then (s, Cooldown)
      else
        let s1 = s\<lparr>last_mark_time := (last_mark_time s)(name \<mapsto> steady_now e)\<rparr> in
        if name \<in> attendance_set s1 then (s1, Already_marked)
        else
          let s2 = s1\<lparr>attendance_set := insert name (attendance_set s1)\<rparr> in
          if file_opens e
          then (let r = (name, current_date s2, getCurrentDay (tm_wday e))
                in (s2\<lparr>ledger := ledger s2 @ record_line r\<rparr>, Appended r))
          else (s2, Not_written))"

text \<open>A sequence of calls in one run, with the outcome of each.\<close>

fun mark_all :: "(mark_env \<times> string) list \<Rightarrow> system \<Rightarrow> system \<times> mark_outcome list" where
  "mark_all [] s = (s, [])"
| "mark_all ((e, name) # calls) s =
     (case markAttendance e name s of
        (s', r) \<Rightarrow> (case mark_all calls s' of (s'', rs) \<Rightarrow> (s'', r # rs)))"

fun appended :: "mark_outcome list \<Rightarrow> attendance_record list" where
  "appended [] = []"
| "appended (Appended r # rs) = r # appended rs"
| "appended (_ # rs) = appended rs"

subsection \<open>loadKnownFaces and the constructor\<close>

text \<open>
  One entry of the photos directory, as the loop sees it: \<open>extracted_face\<close> is the
  result of \<open>extractFace(imread(path))\<close>, the empty list for an empty \<open>Mat\<close>.
\<close>

record dir_entry =
  is_regular_file :: bool
  extension :: string
  stem :: string
  extracted_face :: signature

definition tolower :: "char \<Rightarrow> char" where
  "tolower c = (let n = (of_char c :: nat) in if 65 \<le> n \<and> n \<le> 90 then char_of (n + 32) else c)"

definition isImage :: "string \<Rightarrow> bool" where
  "isImage ext =
     (let e = map tolower ext
      in e = ''.jpg'' \<or> e = ''.jpeg'' \<or> e = ''.png'' \<or> e = ''.bmp'' \<or> e = ''.tiff'')"

definition inferName :: "string \<Rightarrow> string" where
  "inferName st = takeWhile (\<lambda>c. c \<notin> set ''_- '') st"

datatype init_error = Cascade_load_failed | Photos_path_not_found | No_usable_faces

text \<open>
  The body of the directory loop, on the pair of the entries of \<open>known_faces\<close> and
  \<open>loaded\<close>. \<open>known_faces[name] = face\<close> replaces the image of a name already present
  and adds a new entry otherwise. The list that the loop builds holds the contents
  of the map, one entry for each name; its order, the order of first insertion,
  is not the order in which the map is visited.
\<close>

definition load_entry :: "dir_entry \<Rightarrow> gallery \<times> nat \<Rightarrow> gallery \<times> nat" where
  "load_entry entry acc =
     (case acc of (faces, loaded) \<Rightarrow>
        if \<not> is_regular_file entry then acc
        else if \<not> isImage (extension entry) then acc
        else if extracted_face entry \<noteq> []
             then (AList.update (inferName (stem entry)) (extracted_face entry) faces, loaded + 1)
             else acc)"

text \<open>
  The order in which the finished map is visited. The implementation is free to
  choose it; \<open>rank\<close> gives the place of each name in that order, so that every
  arrangement of the entries is the visiting order for some \<open>rank\<close>.
\<close>

definition visiting_order :: "(string \<Rightarrow> nat) \<Rightarrow> gallery \<Rightarrow> gallery" where
  "visiting_order rank entries = sort_key (\<lambda>kv. rank (fst kv)) entries"

definition loadKnownFaces :: "(string \<Rightarrow> nat) \<Rightarrow> dir_entry list option \<Rightarrow> system \<Rightarrow> init_error + system" where
  "loadKnownFaces rank photos s =
     (case photos of
        None \<Rightarrow> Inl Photos_path_not_found
      | Some entries \<Rightarrow>
          (case fold load_entry entries (known_faces s, 0) of
             (faces, loaded) \<Rightarrow>
               if loaded = 0 then Inl No_usable_faces
               else Inr (s\<lparr>known_faces := visiting_order rank faces\<rparr>)))"

text \<open>
  What the constructor finds: the date, whether the cascade file loads, the
  attendance file, the photos directory (\<open>None\<close> when the path does not exist or
  is no directory; the entries in the order of \<open>directory_iterator\<close>), and the place
  that the hash table of the implementation gives each name in the iteration of
  \<open>known_faces\<close>. \<open>Inl\<close> is \<open>exit(EXIT_FAILURE)\<close>.
\<close>

record startup =
  today :: string
  cascade_loads :: bool
  ledger_content :: string
  ledger_opens :: bool
  photos :: "dir_entry list option"
  visit_rank :: "string \<Rightarrow> nat"

definition AttendanceSystem :: "startup \<Rightarrow> init_error + system" where
  "AttendanceSystem st =
     (let s = \<lparr>ledger = ledger_content st, attendance_set = {}, known_faces = [],
               last_mark_time = Map.empty, current_date = today st\<rparr>
      in if \<not> cascade_loads st then Inl Cascade_load_failed
         else loadKnownFaces (visit_rank st) (photos st) (loadAttendance (ledger_opens st) s))"

subsection \<open>The verification loop of runAttendance\<close>

record tracking =
  candidate_name :: string
  candidate_start :: int
  verified_today :: bool

definition tracking_init :: tracking where
  "tracking_init = \<lparr>candidate_name = ''Unknown'', candidate_start = 0, verified_today = False\<rparr>"

datatype banner = Verifying string | Marked_for_today string | Successful string

text \<open>
  What one round of the loop shows and does: the status line drawn at the top of
  the frame, and the call of \<open>markAttendance\<close> it made, with its outcome.
\<close>

record frame_out =
  shown :: "banner option"
  mark_call :: "(string \<times> mark_outcome) option"

text \<open>
  The input of the block under \<open>// Verification logic\<close>: the name left in
  \<open>detected_name\<close> by the loop over the faces, the clock reading \<open>now\<close>, and what a call
  of \<open>markAttendance\<close> in this round would read.
\<close>

record observation =
  detected_name :: string
  now :: int
  env :: mark_env

text \<open>\<open>duration_cast\<close> to seconds: integer division that truncates towards zero.\<close>

definition duration_seconds :: "int \<Rightarrow> int" where
  "duration_seconds d = d sdiv 1000000000"

definition verification :: "observation \<Rightarrow> tracking \<times> system \<Rightarrow> (tracking \<times> system) \<times> frame_out" where
  "verification ob ts =
     (case ts of (t, s) \<Rightarrow>
      if detected_name ob \<noteq> ''Unknown'' then
        if candidate_name t \<noteq> detected_name ob
        then ((t\<lparr>candidate_name := detected_name ob, candidate_start := now ob,
                 verified_today := False\<rparr>, s),
              \<lparr>shown = None, mark_call = None\<rparr>)
        else
          let duration = duration_seconds (now ob - candidate_start t) in
          if duration \<ge> 3 then
            if candidate_name t \<in> attendance_set s
            then ((t\<lparr>verified_today := True\<rparr>, s),
                  \<lparr>shown = Some (Marked_for_today (candidate_name t)), mark_call = None\<rparr>)
            else if \<not> verified_today t
            then (case markAttendance (env ob) (candidate_name t) s of
                    (s', r) \<Rightarrow>
                      ((t\<lparr>verified_today := True\<rparr>, s'),
                       \<lparr>shown = Some (Successful (candidate_name t)),
                        mark_call = Some (candidate_name t, r)\<rparr>))
            else ((t, s),
                  \<lparr>shown = Some (Successful (candidate_name t)), mark_call = None\<rparr>)
          else ((t, s), \<lparr>shown = Some (Verifying (candidate_name t)), mark_call = None\<rparr>)
      else ((t\<lparr>candidate_name := [], verified_today := False\<rparr>, s),
            \<lparr>shown = None, mark_call = None\<rparr>))"

text \<open>The rounds of the \<open>while (true)\<close> loop up to the key press that leaves it.\<close>

fun run_verification :: "observation list \<Rightarrow> tracking \<times> system \<Rightarrow> (tracking \<times> system) \<times> frame_out list" where
  "run_verification [] ts = (ts, [])"
| "run_verification (ob # obs) ts =
     (case verification ob ts of
        (ts', out) \<Rightarrow> (case run_verification obs ts' of (ts'', outs) \<Rightarrow> (ts'', out # outs)))"

text \<open>
  A captured, non-empty frame: the regions of interest of the detected faces, each
  resized to 200 x 200, in the order of \<open>detectMultiScale\<close>. The loop over the faces
  leaves the name of the last face in \<open>detected_name\<close>. An empty frame is skipped
  by \<open>continue\<close> and changes nothing. \<open>runAttendance\<close> below is the function once the
  webcam has opened; the case that it does not open, where the function returns
  at once, is in \<open>menu\<close>.
\<close>

record frame =
  rois :: "signature list"
  frame_now :: int
  frame_env :: mark_env

definition detect :: "gallery \<Rightarrow> signature list \<Rightarrow> string" where
  "detect faces rs = foldl (\<lambda>detected roi. recognizeFace faces roi) ''Unknown'' rs"

definition observe :: "gallery \<Rightarrow> frame \<Rightarrow> observation" where
  "observe faces f = \<lparr>detected_name = detect faces (rois f), now = frame_now f, env = frame_env f\<rparr>"

definition runAttendance :: "frame list \<Rightarrow> system \<Rightarrow> system \<times> frame_out list" where
  "runAttendance frames s =
     (case run_verification (map (observe (known_faces s)) frames) (tracking_init, s) of
        ((t, s'), outs) \<Rightarrow> (s', outs))"

definition mark_calls :: "frame_out list \<Rightarrow> (string \<times> mark_outcome) list" where
  "mark_calls outs = List.map_filter mark_call outs"


subsection \<open>The menu of main\<close>

text \<open>
  A choice typed at the menu. Choice 1 comes with what \<open>runAttendance\<close> meets:
  whether the webcam opens, and the frames up to the key press.
\<close>

datatype choice = Start bool "frame list" | View | Leave | Other

fun menu :: "choice list \<Rightarrow> system \<Rightarrow> system \<times> frame_out list" where
  "menu [] s = (s, [])"
| "menu (Start cam frames # cs) s =
     (if \<not> cam then menu cs s
      else (case runAttendance frames s of
              (s', outs) \<Rightarrow> (case menu cs s' of (s'', outs') \<Rightarrow> (s'', outs @ outs'))))"
| "menu (Leave # cs) s = (s, [])"
| "menu (_ # cs) s = menu cs s"

definition main_program :: "startup \<Rightarrow> choice list \<Rightarrow> init_error + (system \<times> frame_out list)" where
  "main_program st cs =
     (case AttendanceSystem st of Inl e \<Rightarrow> Inl e | Inr s \<Rightarrow> Inr (menu cs s))"

section \<open>The earlier variant (eye detection.cpp)\<close>

text \<open>
  The second program of the repository has the same class without the cooldown
  table, the dwell logic and the face extraction; it loads the photos each time
  attendance mode is started.
\<close>

record legacy_system =
  lg_ledger :: string
  lg_attendance_set :: "string set"
  lg_current_date :: string

definition legacy_markAttendance :: "bool \<Rightarrow> nat \<Rightarrow> string \<Rightarrow> legacy_system \<Rightarrow> legacy_system" where
  "legacy_markAttendance opens wday name s =
     (if name \<in> lg_attendance_set s then s
      else
        let s1 = s\<lparr>lg_attendance_set := insert name (lg_attendance_set s)\<rparr> in
        if opens
        then s1\<lparr>lg_ledger := lg_ledger s1 @ record_line (name, lg_current_date s1, getCurrentDay wday)\<rparr>
        else s1)"

text \<open>
  \<open>loadKnownFaces\<close> of this variant keeps every regular file that \<open>imread\<close> can decode,
  under its whole stem. \<open>pf_image\<close> is the decoded photo after the grey conversion
  and the resize to 100 x 100 that \<open>recognizeFace\<close> applies to it (the empty list
  for a file that does not decode).
\<close>

record photo_file =
  pf_regular :: bool
  pf_stem :: string
  pf_image :: signature

definition legacy_loadKnownFaces :: "photo_file list \<Rightarrow> gallery" where
  "legacy_loadKnownFaces entries =
     map (\<lambda>e. (pf_stem e, pf_image e)) (filter (\<lambda>e. pf_regular e \<and> pf_image e \<noteq> []) entries)"

text \<open>\<open>sum(diff)[0] / (100*100)\<close>: the differences are summed unsquared.\<close>

definition legacy_mse :: "signature \<Rightarrow> signature \<Rightarrow> real" where
  "legacy_mse face_gray known_gray = sum_px (absdiff face_gray known_gray) / (100 * 100)"

fun legacy_match_loop :: "signature \<Rightarrow> gallery \<Rightarrow> string \<times> real \<Rightarrow> string \<times> real" where
  "legacy_match_loop face_gray [] acc = acc"
| "legacy_match_loop face_gray ((known_name, known_gray) # rest) (name, min_diff) =
     (let m = legacy_mse face_gray known_gray in
      if m < min_diff \<and> m < 1000
      then legacy_match_loop face_gray rest (known_name, m)
      else legacy_match_loop face_gray rest (name, min_diff))"

definition legacy_recognizeFace :: "signature \<Rightarrow> gallery \<Rightarrow> string" where
  "legacy_recognizeFace face_gray known = fst (legacy_match_loop face_gray known (''Unknown'', 1000000000))"

text \<open>One captured frame: the face regions, and what \<open>markAttendance\<close> reads.\<close>

record legacy_frame =
  lf_faces :: "signature list"
  lf_opens :: bool
  lf_wday :: nat

definition legacy_frame_step :: "gallery \<Rightarrow> legacy_frame \<Rightarrow> legacy_system \<Rightarrow> legacy_system" where
  "legacy_frame_step known f s =
     fold (\<lambda>roi. legacy_markAttendance (lf_opens f) (lf_wday f) (legacy_recognizeFace roi known))
          (lf_faces f) s"

datatype run_status = No_known_faces | Cannot_open_webcam | Quit

text \<open>
  \<open>runAttendance\<close> of this variant. A photos path that cannot be iterated makes
  \<open>directory_iterator\<close> throw, which nothing catches: \<open>None\<close>.
\<close>

definition legacy_runAttendance ::
  "photo_file list option \<Rightarrow> bool \<Rightarrow> legacy_frame list \<Rightarrow> legacy_system \<Rightarrow> (legacy_system \<times> run_status) option" where
  "legacy_runAttendance dir cam frames s =
     (case dir of
        None \<Rightarrow> None
      | Some entries \<Rightarrow>
          (let known = legacy_loadKnownFaces entries in
           if known = [] then Some (s, No_known_faces)
           else if \<not> cam then Some (s, Cannot_open_webcam)
           else Some (fold (legacy_frame_step known) frames s, Quit)))"

datatype legacy_choice =
    Legacy_start "photo_file list option" bool "legacy_frame list"
  | Legacy_view
  | Legacy_exit
  | Legacy_other

datatype process_end = Returned_0 | Terminated | Waiting_for_input

text \<open>
  The \<open>do ... while (choice != 3)\<close> loop of \<open>main\<close>, with the status of every attendance
  session it ran and the names listed by every \<open>viewAttendanceToday\<close>.
\<close>

fun legacy_menu ::
  "legacy_choice list \<Rightarrow> legacy_system \<Rightarrow> process_end \<times> run_status list \<times> string set list \<times> legacy_system" where
  "legacy_menu [] s = (Waiting_for_input, [], [], s)"
| "legacy_menu (Legacy_start dir cam frames # cs) s =
     (case legacy_runAttendance dir cam frames s of
        None \<Rightarrow> (Terminated, [], [], s)
      | Some (s', st) \<Rightarrow>
          (case legacy_menu cs s' of (e, sts, views, s'') \<Rightarrow> (e, st # sts, views, s'')))"
| "legacy_menu (Legacy_view # cs) s =
     (case legacy_menu cs s of (e, sts, views, s') \<Rightarrow> (e, sts, lg_attendance_set s # views, s'))"
| "legacy_menu (Legacy_exit # cs) s = (Returned_0, [], [], s)"
| "legacy_menu (Legacy_other # cs) s = legacy_menu cs s"

section \<open>Relating two runs of the matching loop\<close>

text \<open>
  The relation kept between the accumulator \<open>s1\<close> of the loop under a threshold
  \<open>thr\<close> and the accumulator \<open>s2\<close> of the loop under a larger one, both started
  from \<open>init\<close>: either they agree, or the first loop has accepted nothing yet while
  the second holds an entry that the first one rejected.
\<close>

definition mono_inv :: "real \<Rightarrow> string \<times> real \<Rightarrow> string \<times> real \<Rightarrow> string \<times> real \<Rightarrow> bool" where
  "mono_inv thr init s1 s2 \<longleftrightarrow>
     (s1 = s2 \<and> (s1 = init \<or> snd s1 < thr)) \<or> (thr \<le> snd s2 \<and> snd s2 < snd s1 \<and> s1 = init)"

section \<open>Inputs for the examples\<close>

text \<open>A 200 x 200 image whose pixels all have the intensity \<open>v\<close>.\<close>

definition uniform :: "pixel \<Rightarrow> signature" where
  "uniform v = replicate (200 * 200) v"

text \<open>A 200 x 200 image with intensity \<open>a\<close> in its upper half and \<open>b\<close> in its lower half.\<close>

definition two_tone :: "pixel \<Rightarrow> pixel \<Rightarrow> signature" where
  "two_tone a b = replicate (100 * 200) a @ replicate (100 * 200) b"

text \<open>
  What \<open>markAttendance\<close> reads at steady-clock time \<open>t\<close> on a Monday when the
  attendance file can be opened, and what the verification block sees in a frame
  taken at that time.
\<close>

definition clock :: "int \<Rightarrow> mark_env" where
  "clock t = \<lparr>steady_now = t, file_opens = True, tm_wday = 1\<rparr>"

definition sees :: "string \<Rightarrow> int \<Rightarrow> observation" where
  "sees name t = \<lparr>detected_name = name, now = t, env = clock t\<rparr>"

text \<open>A frame taken at time \<open>t\<close> with the given face regions.\<close>

definition shot :: "signature list \<Rightarrow> int \<Rightarrow> frame" where
  "shot rs t = \<lparr>rois = rs, frame_now = t, frame_env = clock t\<rparr>"

text \<open>
  A system on 2024-05-06 with an empty attendance file, one enrolled face and the
  given names already marked.
\<close>

definition session :: "string set \<Rightarrow> system" where
  "session marked = \<lparr>ledger = [], attendance_set = marked, known_faces = [(''Alice'', uniform 90)],
     last_mark_time = Map.empty, current_date = ''2024-05-06''\<rparr>"

text \<open>A photo \<open>stem.jpg\<close> in which \<open>extractFace\<close> finds a face of uniform intensity.\<close>

definition photo :: "string \<Rightarrow> pixel \<Rightarrow> dir_entry" where
  "photo st v = \<lparr>is_regular_file = True, extension = ''.jpg'', stem = st, extracted_face = uniform v\<rparr>"

section \<open>Properties of the matcher\<close>

subsection \<open>The distance\<close>

lemma unat_pixel_le: "unat (p :: pixel) \<le> 255"
  using unsigned_less [of p, where ?'a = nat] by simp

lemma sum_px_le: "sum_px m \<le> 255 * real (length m)"
proof -
  have "sum_list (map unat m) \<le> 255 * length m"
    by (induction m) (use unat_pixel_le in \<open>auto simp: add_mono\<close>)
  then show ?thesis unfolding sum_px_def
    by (metis of_nat_le_iff of_nat_mult of_nat_numeral)
qed

lemma sum_px_nonneg: "0 \<le> sum_px m"
  by (simp add: sum_px_def)

lemma mse_nonneg: "0 \<le> mse q g"
  by (simp add: mse_def Let_def sum_px_nonneg)

lemma length_absdiff: "length (absdiff xs ys) = min (length xs) (length ys)"
  by (simp add: absdiff_def)

lemma length_mul: "length (mul xs ys) = min (length xs) (length ys)"
  by (simp add: mul_def)

lemma mse_le_255: assumes "length q \<le> 40000" shows "mse q g \<le> 255"
proof -
  let ?d = "absdiff q g"
  have "length (mul ?d ?d) \<le> 40000" using assms by (simp add: length_mul length_absdiff)
  then have "255 * real (length (mul ?d ?d)) \<le> 255 * 40000" by simp
  with sum_px_le [of "mul ?d ?d"] have "sum_px (mul ?d ?d) \<le> 255 * 40000" by linarith
  then show ?thesis by (simp add: mse_def Let_def)
qed

lemma DBL_MAX_large: "1500 < DBL_MAX"
proof -
  have "(2::real) ^ 11 \<le> 2 ^ 1023" by (rule power_increasing) simp_all
  moreover have "(1::real) \<le> 2 - 1 / 2 ^ 52" by simp
  ultimately have "1 * (2::real) ^ 11 \<le> (2 - 1 / 2 ^ 52) * 2 ^ 1023"
    by (intro mult_mono) simp_all
  then show ?thesis by (simp add: DBL_MAX_def)
qed

lemma mse_replicate:
  "mse (replicate n a) (replicate n b) =
     real (n * unat (mul_px (absdiff_px a b) (absdiff_px a b))) / 40000"
  by (simp add: mse_def absdiff_def mul_def sum_px_def sum_list_replicate)

lemma msd_replicate:
  "0 < n \<Longrightarrow> mean_squared_difference (replicate n a) (replicate n b) = real_of_int ((uint a - uint b) ^ 2)"
  by (simp add: mean_squared_difference_def sum_list_replicate)

subsection \<open>The loop\<close>

lemma match_loop_all_rejected:
  "\<forall>(n, s)\<in>set g. thr \<le> mse q s \<Longrightarrow> match_loop thr q g acc = acc"
  by (induction g arbitrary: acc) (auto split: prod.splits)

lemma match_loop_no_better:
  "\<forall>(n, s)\<in>set g. m \<le> mse q s \<Longrightarrow> match_loop thr q g (b, m) = (b, m)"
  by (induction g) auto

lemma match_loop_first_minimum:
  assumes "\<forall>(n, s)\<in>set pre. d < mse q s" and "d < m"
    and "mse q sA = d" and "d < thr" and "\<forall>(n, s)\<in>set post. d \<le> mse q s"
  shows "match_loop thr q (pre @ (A, sA) # post) (b, m) = (A, d)"
  using assms(1,2)
proof (induction pre arbitrary: b m)
  case Nil
  then show ?case using assms(3,4,5) by (simp add: match_loop_no_better)
next
  case (Cons e pre)
  obtain n s where e: "e = (n, s)" by (cases e)
  from Cons.prems have "d < mse q s" and rest: "\<forall>(n, s)\<in>set pre. d < mse q s"
    by (auto simp: e)
  then show ?case using Cons.IH [OF rest] Cons.prems(2) by (simp add: e Let_def)
qed

lemma match_loop_mono_inv:
  assumes "thr \<le> thr'"
  shows "mono_inv thr init s1 s2 \<Longrightarrow>
         mono_inv thr init (match_loop thr q g s1) (match_loop thr' q g s2)"
proof (induction g arbitrary: s1 s2)
  case Nil
  then show ?case by simp
next
  case (Cons e g)
  obtain n s where e: "e = (n, s)" by (cases e)
  obtain b1 m1 where s1: "s1 = (b1, m1)" by (cases s1)
  obtain b2 m2 where s2: "s2 = (b2, m2)" by (cases s2)
  let ?x = "mse q s"
  let ?s1 = "if ?x < m1 \<and> ?x < thr then (n, ?x) else (b1, m1)"
  let ?s2 = "if ?x < m2 \<and> ?x < thr' then (n, ?x) else (b2, m2)"
  have "mono_inv thr init ?s1 ?s2"
    using Cons.prems assms unfolding mono_inv_def s1 s2 by (auto split: if_splits)
  from Cons.IH [OF this] show ?case by (simp add: e s1 s2 Let_def if_distrib [of "match_loop _ _ _"] cong: if_cong)
qed

lemma recognizeFace_thr_mono:
  assumes "thr \<le> thr'" and "recognizeFace_thr thr g q \<noteq> ''Unknown''"
  shows "recognizeFace_thr thr' g q = recognizeFace_thr thr g q"
proof -
  let ?init = "(''Unknown'', DBL_MAX)"
  have "mono_inv thr ?init ?init ?init" by (simp add: mono_inv_def)
  from match_loop_mono_inv [OF assms(1) this, of q g]
  have inv: "mono_inv thr ?init (match_loop thr q g ?init) (match_loop thr' q g ?init)" .
  from assms(2) have "match_loop thr q g ?init \<noteq> ?init"
    by (auto simp: recognizeFace_thr_def)
  with inv show ?thesis by (auto simp: mono_inv_def recognizeFace_thr_def)
qed

lemma match_loop_name:
  "fst (match_loop thr q g (b, m)) \<in> insert b (fst ` set g)"
proof (induction g arbitrary: b m)
  case Nil
  then show ?case by simp
next
  case (Cons e g)
  obtain n s where e: "e = (n, s)" by (cases e)
  show ?case using Cons.IH [of n "mse q s"] Cons.IH [of b m]
    by (auto simp: e Let_def)
qed

lemma recognizeFace_never_rejects:
  assumes "g \<noteq> []" and "length q \<le> 40000"
  shows "recognizeFace g q \<in> fst ` set g"
proof -
  obtain n s rest where g: "g = (n, s) # rest" using assms(1) by (cases g) auto
  have "mse q s < 1500" using mse_le_255 [OF assms(2), of s] by simp
  moreover have "mse q s < DBL_MAX" using \<open>mse q s < 1500\<close> DBL_MAX_large by simp
  ultimately have "recognizeFace g q = fst (match_loop 1500 q rest (n, mse q s))"
    by (simp add: recognizeFace_def recognizeFace_thr_def g)
  then show ?thesis using match_loop_name [of 1500 q rest n "mse q s"] by (auto simp: g)
qed

subsection \<open>Claims about the matcher\<close>

lemma mse_uniform:
  "mse (uniform a) (uniform b) = real (unat (mul_px (absdiff_px a b) (absdiff_px a b)))"
  by (simp add: uniform_def mse_replicate)

lemma msd_uniform:
  "mean_squared_difference (uniform a) (uniform b) = real_of_int ((uint a - uint b) ^ 2)"
  by (simp add: uniform_def msd_replicate)

lemma uniform_eq_iff: "uniform a = uniform b \<longleftrightarrow> a = b"
  by (simp add: uniform_def)

lemma length_uniform: "length (uniform a) = 40000"
  by (simp add: uniform_def)

lemmas px_eval = mse_uniform msd_uniform absdiff_px_def mul_px_def saturate_u8_def

text \<open>
  C2. The claim: for every query and non-empty gallery, \<open>recognizeFace\<close> takes as
  distance the mean of the squared per-pixel differences, returns the identity of
  minimum distance when that minimum is strictly below the rejection threshold,
  and returns Unknown otherwise. The comment of \<open>recognizeFace\<close> promises the mean
  squared error, but the squares are formed in 8-bit arithmetic and saturate at
  255, so the value compared with 1500 never exceeds 255 (\<open>mse_le_255\<close>) and a
  non-empty gallery is never answered with Unknown
  (\<open>recognizeFace_never_rejects\<close>). Here the query differs from the only enrolled
  face by 40 at every pixel: the mean squared difference is 1600, above the
  threshold, and the face is accepted all the same.
\<close>

theorem recognizeFace_accepts_distant_face:
  "mean_squared_difference (uniform 100) (uniform 140) = 1600
   \<and> mse (uniform 100) (uniform 140) = 255
   \<and> recognizeFace [(''Alice'', uniform 140)] (uniform 100) = ''Alice''"
proof -
  have "mse (uniform 100) (uniform 140) = 255" by (simp add: px_eval)
  moreover from this have "recognizeFace [(''Alice'', uniform 140)] (uniform 100) = ''Alice''"
    using DBL_MAX_large by (simp add: recognizeFace_def recognizeFace_thr_def)
  moreover have "mean_squared_difference (uniform 100) (uniform 140) = 1600"
    by (simp add: px_eval)
  ultimately show ?thesis by simp
qed

lemma recognizeFace_thr_unique_minimum:
  assumes "(A, sA) \<in> set g" and "distinct (map fst g)"
    and "\<forall>(n, s)\<in>set g. n \<noteq> A \<longrightarrow> mse q sA < mse q s"
    and "mse q sA < thr" and "thr \<le> DBL_MAX"
  shows "recognizeFace_thr thr g q = A"
proof -
  from assms(1) obtain pre post where g: "g = pre @ (A, sA) # post"
    by (auto dest: split_list)
  from assms(2) have notin: "A \<notin> fst ` set pre" "A \<notin> fst ` set post" by (auto simp: g)
  have other: "mse q sA < mse q s" if "(n, s) \<in> set pre \<or> (n, s) \<in> set post" for n s
  proof -
    from that notin have "n \<noteq> A" by force
    moreover from that have "(n, s) \<in> set g" by (auto simp: g)
    ultimately show ?thesis using assms(3) by blast
  qed
  have pre: "\<forall>(n, s)\<in>set pre. mse q sA < mse q s" using other by blast
  have post: "\<forall>(n, s)\<in>set post. mse q sA \<le> mse q s" using other by (auto intro: less_imp_le)
  have "mse q sA < DBL_MAX" using assms(4,5) by simp
  from match_loop_first_minimum [OF pre this refl assms(4) post, of A "''Unknown''"]
  show ?thesis by (simp add: recognizeFace_thr_def g)
qed

text \<open>
  The three lemmas \<open>recognizeFace_thr_unique_minimum\<close>, \<open>match_loop_all_rejected\<close> and
  \<open>recognizeFace_thr_mono\<close> are statements about the value \<open>mse\<close> that the loop
  compares, which is not the mean squared difference.
\<close>

lemma uniform_halves: "uniform q = replicate 20000 q @ replicate 20000 q"
  by (simp add: uniform_def flip: replicate_add)

lemma mse_uniform_two_tone:
  "mse (uniform q) (two_tone a b)
     = (real (unat (mul_px (absdiff_px q a) (absdiff_px q a)))
        + real (unat (mul_px (absdiff_px q b) (absdiff_px q b)))) / 2"
proof -
  have "zip (uniform q) (two_tone a b) = replicate 20000 (q, a) @ replicate 20000 (q, b)"
    by (simp add: uniform_halves two_tone_def)
  then show ?thesis
    by (simp add: mse_def absdiff_def mul_def sum_px_def sum_list_replicate add_divide_distrib)
qed

lemma msd_uniform_two_tone:
  "mean_squared_difference (uniform q) (two_tone a b)
     = (real_of_int ((uint q - uint a) ^ 2) + real_of_int ((uint q - uint b) ^ 2)) / 2"
proof -
  have "zip (uniform q) (two_tone a b) = replicate 20000 (q, a) @ replicate 20000 (q, b)"
    by (simp add: uniform_halves two_tone_def)
  moreover have "length (uniform q) = 40000" by (rule length_uniform)
  ultimately show ?thesis
    by (simp add: mean_squared_difference_def sum_list_replicate add_divide_distrib)
qed

text \<open>
  C7. The claim: an identity whose distance (the mean squared difference) is
  strictly smaller than that of every other identity and strictly below the
  threshold is returned; a minimum distance at or above the threshold gives
  Unknown; a larger threshold never turns an accepted identity into Unknown. The
  last part holds for the loop (\<open>recognizeFace_thr_mono\<close>). The first two fail on the
  code through the saturation of the 8-bit squares, the defect of C2. Alice is at
  mean squared difference 256 from the query and Bob at 800, both below 1500, and
  the answer is Bob in either visiting order: the loop compares 255 for Alice
  with 127.5 for Bob. With Alice at 2500 and Bob at 3600, both above the
  threshold, the answer is the identity visited first and not Unknown.
\<close>

theorem nearest_identity_is_not_returned:
  "mean_squared_difference (uniform 100) (uniform 116) = 256
   \<and> mean_squared_difference (uniform 100) (two_tone 100 140) = 800
   \<and> recognizeFace [(''Alice'', uniform 116), (''Bob'', two_tone 100 140)] (uniform 100) = ''Bob''
   \<and> recognizeFace [(''Bob'', two_tone 100 140), (''Alice'', uniform 116)] (uniform 100) = ''Bob''
   \<and> mean_squared_difference (uniform 100) (uniform 150) = 2500
   \<and> mean_squared_difference (uniform 100) (uniform 40) = 3600
   \<and> recognizeFace [(''Alice'', uniform 150), (''Bob'', uniform 40)] (uniform 100) = ''Alice''
   \<and> recognizeFace [(''Bob'', uniform 40), (''Alice'', uniform 150)] (uniform 100) = ''Bob''"
proof -
  have a: "mse (uniform 100) (uniform 116) = 255"
    and b: "mse (uniform 100) (two_tone 100 140) = 255 / 2"
    and c: "mse (uniform 100) (uniform 150) = 255"
    and d: "mse (uniform 100) (uniform 40) = 255"
    by (simp_all add: px_eval mse_uniform_two_tone)
  have big: "(255::real) < DBL_MAX" "(255 / 2 :: real) < DBL_MAX" using DBL_MAX_large by simp_all
  have 1: "recognizeFace [(''Alice'', uniform 116), (''Bob'', two_tone 100 140)] (uniform 100) = ''Bob''"
    and 2: "recognizeFace [(''Bob'', two_tone 100 140), (''Alice'', uniform 116)] (uniform 100) = ''Bob''"
    and 3: "recognizeFace [(''Alice'', uniform 150), (''Bob'', uniform 40)] (uniform 100) = ''Alice''"
    and 4: "recognizeFace [(''Bob'', uniform 40), (''Alice'', uniform 150)] (uniform 100) = ''Bob''"
    using big by (simp_all add: recognizeFace_def recognizeFace_thr_def a b c d)
  have 5: "mean_squared_difference (uniform 100) (uniform 116) = 256"
    "mean_squared_difference (uniform 100) (two_tone 100 140) = 800"
    "mean_squared_difference (uniform 100) (uniform 150) = 2500"
    "mean_squared_difference (uniform 100) (uniform 40) = 3600"
    by (simp_all add: px_eval msd_uniform_two_tone)
  from 1 2 3 4 5 show ?thesis by simp
qed

text \<open>
  C8. The claim: the matcher visits the gallery in a canonical order (sorted by
  identity), so that a tie goes to the first entry of that order and equal gallery
  contents give equal answers. The loop visits the \<open>unordered_map\<close> in its own
  iteration order: two visiting orders of the same two entries, both at distance
  100 from the query, give two different answers, and the second is not the first
  identity in sorted order.
\<close>

theorem tie_depends_on_iteration_order:
  "set [(''Alice'', uniform 90), (''Bob'', uniform 110)]
     = set [(''Bob'', uniform 110), (''Alice'', uniform 90)]
   \<and> mse (uniform 100) (uniform 90) = mse (uniform 100) (uniform 110)
   \<and> recognizeFace [(''Alice'', uniform 90), (''Bob'', uniform 110)] (uniform 100) = ''Alice''
   \<and> recognizeFace [(''Bob'', uniform 110), (''Alice'', uniform 90)] (uniform 100) = ''Bob''"
proof -
  have a: "mse (uniform 100) (uniform 90) = 100"
    and b: "mse (uniform 100) (uniform 110) = 100"
    by (simp_all add: px_eval)
  have "set [(''Alice'', uniform 90), (''Bob'', uniform 110)]
     = set [(''Bob'', uniform 110), (''Alice'', uniform 90)]" by auto
  moreover have "(100::real) < DBL_MAX" using DBL_MAX_large by simp
  then have "recognizeFace [(''Alice'', uniform 90), (''Bob'', uniform 110)] (uniform 100) = ''Alice''"
    "recognizeFace [(''Bob'', uniform 110), (''Alice'', uniform 90)] (uniform 100) = ''Bob''"
    by (simp_all add: recognizeFace_def recognizeFace_thr_def a b)
  ultimately show ?thesis by (simp only: a b simp_thms)
qed

text \<open>
  C8, as the code has it: among the entries whose computed value \<open>mse\<close> is the
  minimum, the one that the loop visits first is returned (the comparison
  \<open>mse < min_mse\<close> is strict), provided that value is below the threshold.
\<close>

theorem tie_goes_to_first_visited:
  assumes "\<forall>(n, s)\<in>set pre. mse q sA < mse q s"
    and "\<forall>(n, s)\<in>set post. mse q sA \<le> mse q s"
    and "mse q sA < 1500"
  shows "recognizeFace (pre @ (A, sA) # post) q = A"
proof -
  have "mse q sA < DBL_MAX" using assms(3) DBL_MAX_large by simp
  from match_loop_first_minimum [OF assms(1) this refl assms(3) assms(2), of A "''Unknown''"]
  show ?thesis by (simp add: recognizeFace_def recognizeFace_thr_def)
qed

theorem tie_goes_to_first_visited_witness:
  "recognizeFace ([(''Carol'', uniform 200)] @ (''Bob'', uniform 110) # [(''Alice'', uniform 90)])
     (uniform 100) = ''Bob''"
proof -
  have a: "mse (uniform 100) (uniform 90) = 100"
    and b: "mse (uniform 100) (uniform 110) = 100"
    and c: "mse (uniform 100) (uniform 200) = 255"
    by (simp_all add: px_eval)
  have h1: "\<forall>(n, s)\<in>set [(''Carol'', uniform 200)].
              mse (uniform 100) (uniform 110) < mse (uniform 100) s"
    by (simp add: b c)
  have h2: "\<forall>(n, s)\<in>set [(''Alice'', uniform 90)].
              mse (uniform 100) (uniform 110) \<le> mse (uniform 100) s"
    by (simp add: a b)
  have h3: "mse (uniform 100) (uniform 110) < 1500" by (simp add: b)
  from tie_goes_to_first_visited [OF h1 h2 h3] show ?thesis .
qed

section \<open>Properties of the attendance ledger\<close>

subsection \<open>Whole seconds\<close>

lemma le_div_pos_iff:
  fixes c k d :: int
  assumes "0 < c"
  shows "k \<le> d div c \<longleftrightarrow> k * c \<le> d"
proof
  assume "k \<le> d div c"
  then have "k * c \<le> (d div c) * c" using assms by (simp add: mult_right_mono)
  also have "\<dots> \<le> (d div c) * c + d mod c"
    using pos_mod_sign [OF assms, of d] by linarith
  also have "\<dots> = d" by simp
  finally show "k * c \<le> d" .
next
  assume "k * c \<le> d"
  then have "(k * c) div c \<le> d div c" using assms by (rule zdiv_mono1)
  then show "k \<le> d div c" using assms by simp
qed

lemma duration_seconds_ge_3: "3 \<le> duration_seconds d \<longleftrightarrow> 3000000000 \<le> d"
proof (cases "0 \<le> d")
  case True
  then have "duration_seconds d = d div 1000000000"
    by (cases "d = 0") (simp_all add: duration_seconds_def signed_divide_int_def sgn_if)
  moreover have "3 \<le> d div 1000000000 \<longleftrightarrow> 3000000000 \<le> d"
    using le_div_pos_iff [of 1000000000 3 d] by simp
  ultimately show ?thesis by simp
next
  case False
  then have "duration_seconds d = - (\<bar>d\<bar> div 1000000000)"
    by (simp add: duration_seconds_def signed_divide_int_def sgn_if)
  moreover have "0 \<le> \<bar>d\<bar> div 1000000000" by simp
  ultimately show ?thesis using False by linarith
qed

subsection \<open>markAttendance\<close>

lemma markAttendance_cases:
  assumes "markAttendance e X s = (s', r)"
  shows "(r = Cooldown \<and> s' = s)
       \<or> (r = Already_marked \<and> X \<in> attendance_set s \<and> s' = s\<lparr>last_mark_time := (last_mark_time s)(X \<mapsto> steady_now e)\<rparr>)
       \<or> (r = Not_written \<and> X \<notin> attendance_set s \<and> \<not> file_opens e \<and>
            s' = s\<lparr>last_mark_time := (last_mark_time s)(X \<mapsto> steady_now e), attendance_set := insert X (attendance_set s)\<rparr>)
       \<or> (r = Appended (X, current_date s, getCurrentDay (tm_wday e)) \<and> X \<notin> attendance_set s \<and> file_opens e \<and>
            s' = s\<lparr>last_mark_time := (last_mark_time s)(X \<mapsto> steady_now e), attendance_set := insert X (attendance_set s),
                   ledger := ledger s @ record_line (X, current_date s, getCurrentDay (tm_wday e))\<rparr>)"
  using assms by (auto simp: markAttendance_def Let_def split: if_splits option.splits)

lemma markAttendance_Appended:
  assumes "markAttendance e X s = (s', Appended r)"
  shows "X \<notin> attendance_set s" "X \<in> attendance_set s'"
    "r = (X, current_date s, getCurrentDay (tm_wday e))" "ledger s' = ledger s @ record_line r"
  using markAttendance_cases [OF assms] by auto

lemma markAttendance_not_Appended:
  assumes "markAttendance e X s = (s', r)" and "\<forall>a. r \<noteq> Appended a"
  shows "ledger s' = ledger s"
  using markAttendance_cases [OF assms(1)] assms(2) by auto

lemma markAttendance_frame:
  assumes "markAttendance e X s = (s', r)"
  shows "attendance_set s \<subseteq> attendance_set s'" "current_date s' = current_date s" "known_faces s' = known_faces s"
  using markAttendance_cases [OF assms] by auto

lemma appended_set: "a \<in> set (appended rs) \<longleftrightarrow> Appended a \<in> set rs"
  by (induction rs rule: appended.induct) auto

lemma mark_all_invariant:
  "mark_all calls s = (s', outs) \<Longrightarrow>
     ledger s' = ledger s @ concat (map record_line (appended outs))
   \<and> distinct (map fst (appended outs))
   \<and> (\<forall>(n, d, w)\<in>set (appended outs). n \<notin> attendance_set s \<and> n \<in> attendance_set s' \<and> d = current_date s)
   \<and> attendance_set s \<subseteq> attendance_set s' \<and> current_date s' = current_date s"
proof (induction calls arbitrary: s s' outs)
  case Nil
  then show ?case by simp
next
  case (Cons c calls)
  obtain e X where c: "c = (e, X)" by (cases c)
  obtain s1 r where m: "markAttendance e X s = (s1, r)" by (cases "markAttendance e X s")
  obtain s2 rs where rest: "mark_all calls s1 = (s2, rs)" by (cases "mark_all calls s1")
  from Cons.prems have s': "s' = s2" and outs: "outs = r # rs" by (simp_all add: c m rest)
  note IH = Cons.IH [OF rest]
  note fr = markAttendance_frame [OF m]
  show ?case
  proof (cases "\<exists>a. r = Appended a")
    case True
    then obtain a where r: "r = Appended a" by blast
    note ap = markAttendance_Appended [OF m [unfolded r]]
    have "X \<notin> fst ` set (appended rs)" using IH ap(2) by force
    then show ?thesis using IH ap fr by (auto simp: s' outs r)
  next
    case False
    then have "appended (r # rs) = appended rs" by (cases r) auto
    moreover have "ledger s1 = ledger s" using markAttendance_not_Appended [OF m] False by blast
    ultimately show ?thesis using IH fr by (auto simp: s' outs)
  qed
qed

subsection \<open>The constructor\<close>

lemma uniform_not_Nil: "uniform v \<noteq> []"
  by (simp add: uniform_def)

lemma fold_load_entry_count:
  "fold load_entry entries (faces, loaded) = (faces', loaded') \<Longrightarrow>
     (faces = [] \<longleftrightarrow> loaded = 0) \<Longrightarrow> (faces' = [] \<longleftrightarrow> loaded' = 0)"
proof (induction entries arbitrary: faces loaded)
  case Nil
  then show ?case by simp
next
  case (Cons e entries)
  obtain f l where step: "load_entry e (faces, loaded) = (f, l)" by (cases "load_entry e (faces, loaded)")
  have "f = [] \<longleftrightarrow> l = 0"
    using step Cons.prems(2)
    by (cases faces) (auto simp: load_entry_def split: if_splits)
  from Cons.IH [OF _ this] Cons.prems(1) show ?case by (simp add: step)
qed

lemma visiting_order_Nil_iff: "visiting_order rank entries = [] \<longleftrightarrow> entries = []"
proof -
  have "length (visiting_order rank entries) = length entries"
    by (simp add: visiting_order_def)
  then show ?thesis by (metis length_0_conv)
qed

lemma visiting_order_single: "visiting_order rank [kv] = [kv]"
  by (simp add: visiting_order_def)

lemma set_visiting_order: "set (visiting_order rank entries) = set entries"
  by (simp add: visiting_order_def)

lemma AttendanceSystem_Inr:
  assumes "AttendanceSystem st = Inr s"
  shows "ledger s = ledger_content st" "current_date s = today st" "last_mark_time s = Map.empty"
    "attendance_set s = (if ledger_opens st then foldl (load_line (today st)) {} (getlines (ledger_content st)) else {})"
    "known_faces s \<noteq> []" "cascade_loads st"
proof -
  let ?s0 = "\<lparr>ledger = ledger_content st, attendance_set = {}, known_faces = [],
               last_mark_time = Map.empty, current_date = today st\<rparr>"
  let ?s1 = "loadAttendance (ledger_opens st) ?s0"
  from assms have c: "cascade_loads st" and l: "loadKnownFaces (visit_rank st) (photos st) ?s1 = Inr s"
    by (auto simp: AttendanceSystem_def Let_def split: if_splits)
  from l obtain entries faces loaded where p: "photos st = Some entries"
    and f: "fold load_entry entries (known_faces ?s1, 0) = (faces, loaded)"
    and n: "loaded \<noteq> 0" and s: "s = ?s1\<lparr>known_faces := visiting_order (visit_rank st) faces\<rparr>"
    by (auto simp: loadKnownFaces_def split: option.splits prod.splits if_splits)
  have k: "known_faces ?s1 = []" by (simp add: loadAttendance_def)
  from fold_load_entry_count [OF f] n k have "faces \<noteq> []" by simp
  then show "known_faces s \<noteq> []" by (simp add: s visiting_order_Nil_iff)
  show "ledger s = ledger_content st" "current_date s = today st" "last_mark_time s = Map.empty"
    "attendance_set s = (if ledger_opens st then foldl (load_line (today st)) {} (getlines (ledger_content st)) else {})"
    by (simp_all add: s loadAttendance_def)
  show "cascade_loads st" by (rule c)
qed

lemma distinct_map_finer:
  "distinct (map (\<lambda>x. h (f x)) xs) \<Longrightarrow> distinct (map f xs)"
  by (induction xs) auto

text \<open>
  C1. In a run whose today-set was loaded by the constructor from the attendance
  file, any sequence of \<open>markAttendance\<close> calls appends records of pairwise different
  (identity, date) pairs: the file grows by exactly the records reported as
  appended, each carries the date of the run and an identity that was not in the
  loaded today-set, a call appends only for an identity absent from the today-set
  and leaves it in the set, and a call for an identity in the set writes nothing.
\<close>

theorem ledger_never_repeats_a_record:
  assumes "AttendanceSystem st = Inr s0" and "mark_all calls s0 = (s, outs)"
  shows "ledger s = ledger_content st @ concat (map record_line (appended outs))
       \<and> distinct (map (\<lambda>(n, d, w). (n, d)) (appended outs))
       \<and> (\<forall>(n, d, w)\<in>set (appended outs). d = today st \<and> n \<notin> attendance_set s0)
       \<and> (ledger_opens st \<longrightarrow>
            attendance_set s0 = foldl (load_line (today st)) {} (getlines (ledger_content st)))
       \<and> (\<forall>e X s1 s2 r. markAttendance e X s1 = (s2, Appended r) \<longrightarrow>
            X \<notin> attendance_set s1 \<and> X \<in> attendance_set s2 \<and> r = (X, current_date s1, getCurrentDay (tm_wday e)))
       \<and> (\<forall>e X s1 s2 r. markAttendance e X s1 = (s2, r) \<and> X \<in> attendance_set s1 \<longrightarrow> ledger s2 = ledger s1)"
proof -
  note init = AttendanceSystem_Inr [OF assms(1)]
  note inv = mark_all_invariant [OF assms(2)]
  have "distinct (map (\<lambda>(n, d, w). (n, d)) (appended outs))"
  proof (rule distinct_map_finer)
    show "distinct (map (\<lambda>r. fst (case r of (n, d, w) \<Rightarrow> (n, d))) (appended outs))"
      using inv by (simp add: case_prod_beta)
  qed
  moreover have "\<forall>e X s1 s2 r. markAttendance e X s1 = (s2, Appended r) \<longrightarrow>
            X \<notin> attendance_set s1 \<and> X \<in> attendance_set s2 \<and> r = (X, current_date s1, getCurrentDay (tm_wday e))"
    using markAttendance_Appended by blast
  moreover have "\<forall>e X s1 s2 r. markAttendance e X s1 = (s2, r) \<and> X \<in> attendance_set s1 \<longrightarrow> ledger s2 = ledger s1"
    using markAttendance_cases by fastforce
  ultimately show ?thesis using inv init by auto
qed

subsection \<open>Examples and the failed append\<close>

lemma getlines_ex: "getlines (''Bob,2024-05-06,Mon'' @ [CHR 0x0A]) = [''Bob,2024-05-06,Mon'']"
  by simp

lemma load_line_ex: "load_line ''2024-05-06'' {} ''Bob,2024-05-06,Mon'' = {''Bob''}"
  by (simp add: load_line_def find_char_def substr_def upt_conv_Cons Let_def)

lemma isImage_jpg: "isImage ''.jpg''"
  by (simp add: isImage_def tolower_def Let_def)

lemma inferName_ex: "inferName ''Alice_1'' = ''Alice''" "inferName ''_1'' = []"
  by (simp_all add: inferName_def)

lemma getCurrentDay_1: "getCurrentDay 1 = ''Mon''" "getCurrentDay (Suc 0) = ''Mon''"
  by (simp_all add: getCurrentDay_def days_def)

lemma construct_ex:
  "AttendanceSystem \<lparr>today = ''2024-05-06'', cascade_loads = True,
      ledger_content = ''Bob,2024-05-06,Mon'' @ [CHR 0x0A], ledger_opens = True,
      photos = Some [photo ''Alice_1'' 90],
       visit_rank = (\<lambda>name. 0)\<rparr>
   = Inr ((session {''Bob''})\<lparr>ledger := ''Bob,2024-05-06,Mon'' @ [CHR 0x0A]\<rparr>)"
  by (simp add: AttendanceSystem_def loadAttendance_def loadKnownFaces_def load_entry_def photo_def session_def
      getlines_ex load_line_ex isImage_jpg inferName_ex uniform_not_Nil visiting_order_single del: append.simps)

text \<open>
  Two photos read in the order Bob, Alice: either visiting order of the resulting
  map is the outcome for some \<open>visit_rank\<close>.
\<close>

lemma visiting_order_examples:
  "AttendanceSystem \<lparr>today = ''2024-05-06'', cascade_loads = True, ledger_content = [],
       ledger_opens = True, photos = Some [photo ''Bob'' 110, photo ''Alice'' 90],
       visit_rank = (\<lambda>name. if name = ''Alice'' then 0 else 1)\<rparr>
     = Inr ((session {})\<lparr>known_faces := [(''Alice'', uniform 90), (''Bob'', uniform 110)]\<rparr>)"
  "AttendanceSystem \<lparr>today = ''2024-05-06'', cascade_loads = True, ledger_content = [],
       ledger_opens = True, photos = Some [photo ''Bob'' 110, photo ''Alice'' 90],
       visit_rank = (\<lambda>name. if name = ''Bob'' then 0 else 1)\<rparr>
     = Inr ((session {})\<lparr>known_faces := [(''Bob'', uniform 110), (''Alice'', uniform 90)]\<rparr>)"
  by (simp_all add: AttendanceSystem_def loadAttendance_def loadKnownFaces_def load_entry_def photo_def
      session_def isImage_jpg inferName_def uniform_not_Nil visiting_order_def)

lemma mark_all_ex:
  "mark_all [(clock 0, ''Bob''), (clock 1000000000, ''Alice''), (clock 2000000000, ''Alice''),
             (clock 20000000000, ''Alice'')]
     ((session {''Bob''})\<lparr>ledger := ''Bob,2024-05-06,Mon'' @ [CHR 0x0A]\<rparr>)
   = ((session {''Bob''})\<lparr>ledger := ''Bob,2024-05-06,Mon'' @ [CHR 0x0A] @ ''Alice,2024-05-06,Mon'' @ [CHR 0x0A],
         attendance_set := {''Alice'', ''Bob''},
         last_mark_time := [''Bob'' \<mapsto> 0, ''Alice'' \<mapsto> 20000000000]\<rparr>,
      [Already_marked, Appended (''Alice'', ''2024-05-06'', ''Mon''), Cooldown, Already_marked])"
  by (simp add: markAttendance_def clock_def session_def mark_cooldown_def getCurrentDay_1 record_line_def
       fun_upd_twist)

theorem ledger_never_repeats_a_record_witness:
  "ledger (fst (mark_all [(clock 0, ''Bob''), (clock 1000000000, ''Alice''), (clock 2000000000, ''Alice''),
             (clock 20000000000, ''Alice'')]
     ((session {''Bob''})\<lparr>ledger := ''Bob,2024-05-06,Mon'' @ [CHR 0x0A]\<rparr>)))
     = ''Bob,2024-05-06,Mon'' @ [CHR 0x0A] @ ''Alice,2024-05-06,Mon'' @ [CHR 0x0A]
   \<and> distinct (map (\<lambda>(n, d, w). (n, d))
        (appended (snd (mark_all [(clock 0, ''Bob''), (clock 1000000000, ''Alice''), (clock 2000000000, ''Alice''),
             (clock 20000000000, ''Alice'')]
     ((session {''Bob''})\<lparr>ledger := ''Bob,2024-05-06,Mon'' @ [CHR 0x0A]\<rparr>)))))"
proof -
  let ?st = "\<lparr>today = ''2024-05-06'', cascade_loads = True,
      ledger_content = ''Bob,2024-05-06,Mon'' @ [CHR 0x0A], ledger_opens = True,
      photos = Some [photo ''Alice_1'' 90],
       visit_rank = (\<lambda>name. 0)\<rparr>"
  note T = ledger_never_repeats_a_record [OF construct_ex mark_all_ex]
  from T have "ledger ((session {''Bob''})\<lparr>ledger := ''Bob,2024-05-06,Mon'' @ [CHR 0x0A] @ ''Alice,2024-05-06,Mon'' @ [CHR 0x0A],
         attendance_set := {''Alice'', ''Bob''},
         last_mark_time := [''Bob'' \<mapsto> 0, ''Alice'' \<mapsto> 20000000000]\<rparr>)
      = ledger_content ?st @ concat (map record_line (appended [Already_marked, Appended (''Alice'', ''2024-05-06'', ''Mon''), Cooldown, Already_marked]))"
    by (rule conjunct1)
  moreover from T have "distinct (map (\<lambda>(n, d, w). (n, d)) (appended [Already_marked, Appended (''Alice'', ''2024-05-06'', ''Mon''), Cooldown, Already_marked]))"
    by blast
  ultimately show ?thesis unfolding mark_all_ex by (simp add: record_line_def)
qed

text \<open>
  C4. The claim: the record is appended to the file before the identity enters the
  in-memory today-set, and a failed append leaves the today-set unchanged.
  \<open>markAttendance\<close> inserts first and opens the file afterwards; when the file does
  not open, the identity is in the today-set and nothing has been written.
\<close>

theorem failed_append_still_marks:
  "''Alice'' \<notin> attendance_set (session {})
   \<and> markAttendance \<lparr>steady_now = 0, file_opens = False, tm_wday = 1\<rparr> ''Alice'' (session {})
       = ((session {})\<lparr>last_mark_time := [''Alice'' \<mapsto> 0], attendance_set := {''Alice''}\<rparr>, Not_written)
   \<and> ledger (session {}) = []"
  by (simp add: markAttendance_def session_def)

text \<open>
  C4, as the code has it: for an identity absent from the today-set and not held
  back by the cooldown, \<open>markAttendance\<close> records the attempt time, inserts the
  identity into the today-set, and appends the record (identity, date of the run,
  weekday label) exactly when the attendance file opens.
\<close>

theorem markAttendance_inserts_then_appends:
  assumes "X \<notin> attendance_set s"
    and "\<forall>t. last_mark_time s X = Some t \<longrightarrow> mark_cooldown \<le> steady_now e - t"
  shows "attendance_set (fst (markAttendance e X s)) = insert X (attendance_set s)
       \<and> last_mark_time (fst (markAttendance e X s)) = (last_mark_time s)(X \<mapsto> steady_now e)
       \<and> ledger (fst (markAttendance e X s))
           = (if file_opens e then ledger s @ record_line (X, current_date s, getCurrentDay (tm_wday e))
              else ledger s)
       \<and> snd (markAttendance e X s)
           = (if file_opens e then Appended (X, current_date s, getCurrentDay (tm_wday e)) else Not_written)"
  using assms by (auto simp: markAttendance_def Let_def split: option.splits)

theorem markAttendance_inserts_then_appends_witness:
  "attendance_set (fst (markAttendance (clock 0) ''Alice'' (session {''Bob''}))) = {''Alice'', ''Bob''}
   \<and> ledger (fst (markAttendance (clock 0) ''Alice'' (session {''Bob''}))) = ''Alice,2024-05-06,Mon'' @ [CHR 0x0A]
   \<and> snd (markAttendance (clock 0) ''Alice'' (session {''Bob''})) = Appended (''Alice'', ''2024-05-06'', ''Mon'')"
proof -
  have h1: "''Alice'' \<notin> attendance_set (session {''Bob''})" by (simp add: session_def)
  have h2: "\<forall>t. last_mark_time (session {''Bob''}) ''Alice'' = Some t \<longrightarrow> mark_cooldown \<le> steady_now (clock 0) - t"
    by (simp add: session_def)
  from markAttendance_inserts_then_appends [OF h1 h2]
  show ?thesis by (simp add: session_def clock_def getCurrentDay_1 record_line_def)
qed

section \<open>Properties of the verification loop\<close>

subsection \<open>One round\<close>

lemma mark_calls_Nil [simp]: "mark_calls [] = []"
  by (simp add: mark_calls_def)

lemma mark_calls_Cons:
  "mark_calls (out # outs) = (case mark_call out of None \<Rightarrow> mark_calls outs | Some c \<Rightarrow> c # mark_calls outs)"
  by (cases "mark_call out") (simp_all add: mark_calls_def)

text \<open>The five branches of the verification block.\<close>

lemma verification_new_candidate:
  assumes "detected_name ob \<noteq> ''Unknown''" and "candidate_name t \<noteq> detected_name ob"
  shows "verification ob (t, s) =
     ((\<lparr>candidate_name = detected_name ob, candidate_start = now ob, verified_today = False\<rparr>, s),
      \<lparr>shown = None, mark_call = None\<rparr>)"
  using assms by (simp add: verification_def)

lemma verification_unknown:
  assumes "detected_name ob = ''Unknown''"
  shows "verification ob (t, s) =
     ((t\<lparr>candidate_name := [], verified_today := False\<rparr>, s), \<lparr>shown = None, mark_call = None\<rparr>)"
  using assms by (simp add: verification_def)

lemma verification_verifying:
  assumes "detected_name ob \<noteq> ''Unknown''" and "candidate_name t = detected_name ob"
    and "now ob - candidate_start t < 3000000000"
  shows "verification ob (t, s) =
     ((t, s), \<lparr>shown = Some (Verifying (candidate_name t)), mark_call = None\<rparr>)"
  using assms by (simp add: verification_def Let_def duration_seconds_ge_3)

lemma verification_marked:
  assumes "detected_name ob \<noteq> ''Unknown''" and "candidate_name t = detected_name ob"
    and "3000000000 \<le> now ob - candidate_start t" and "candidate_name t \<in> attendance_set s"
  shows "verification ob (t, s) =
     ((t\<lparr>verified_today := True\<rparr>, s),
      \<lparr>shown = Some (Marked_for_today (candidate_name t)), mark_call = None\<rparr>)"
  using assms by (simp add: verification_def Let_def duration_seconds_ge_3)

lemma verification_mark:
  assumes "detected_name ob \<noteq> ''Unknown''" and "candidate_name t = detected_name ob"
    and "3000000000 \<le> now ob - candidate_start t" and "candidate_name t \<notin> attendance_set s"
    and "\<not> verified_today t"
  shows "verification ob (t, s) =
     ((t\<lparr>verified_today := True\<rparr>, fst (markAttendance (env ob) (candidate_name t) s)),
      \<lparr>shown = Some (Successful (candidate_name t)),
       mark_call = Some (candidate_name t, snd (markAttendance (env ob) (candidate_name t) s))\<rparr>)"
  using assms by (simp add: verification_def Let_def duration_seconds_ge_3 split: prod.splits)

lemma verification_repeat:
  assumes "detected_name ob \<noteq> ''Unknown''" and "candidate_name t = detected_name ob"
    and "3000000000 \<le> now ob - candidate_start t" and "candidate_name t \<notin> attendance_set s"
    and "verified_today t"
  shows "verification ob (t, s) =
     ((t, s), \<lparr>shown = Some (Successful (candidate_name t)), mark_call = None\<rparr>)"
  using assms by (simp add: verification_def Let_def duration_seconds_ge_3)

lemma quiet_step:
  assumes "X \<noteq> ''Unknown''" and "candidate_name t = X" and "detected_name ob = X"
    and "X \<in> attendance_set s \<or> verified_today t"
  obtains t1 out where "verification ob (t, s) = ((t1, s), out)" and "mark_call out = None"
    and "candidate_name t1 = X" and "candidate_start t1 = candidate_start t"
    and "X \<in> attendance_set s \<or> verified_today t1"
proof (cases "now ob - candidate_start t < 3000000000")
  case True
  from verification_verifying [of ob t s] assms True that show ?thesis by simp
next
  case False
  show ?thesis
  proof (cases "X \<in> attendance_set s")
    case True
    from verification_marked [of ob t s] assms True False that show ?thesis by simp
  next
    case notin: False
    from verification_repeat [of ob t s] assms notin False that show ?thesis by simp
  qed
qed

lemma quiet_run:
  assumes "X \<noteq> ''Unknown''" and "\<forall>ob\<in>set obs. detected_name ob = X"
  shows "candidate_name t = X \<Longrightarrow> X \<in> attendance_set s \<or> verified_today t \<Longrightarrow>
     run_verification obs (t, s) = ((t', s'), outs) \<Longrightarrow>
     s' = s \<and> mark_calls outs = [] \<and> candidate_name t' = X \<and> candidate_start t' = candidate_start t"
  using assms(2)
proof (induction obs arbitrary: t outs)
  case Nil
  then show ?case by simp
next
  case (Cons ob obs)
  from Cons.prems have d: "detected_name ob = X" and rest: "\<forall>ob\<in>set obs. detected_name ob = X" by simp_all
  from quiet_step [OF assms(1) Cons.prems(1) d Cons.prems(2)]
  obtain t1 out where v: "verification ob (t, s) = ((t1, s), out)" and m: "mark_call out = None"
    and c: "candidate_name t1 = X" and st: "candidate_start t1 = candidate_start t"
    and q: "X \<in> attendance_set s \<or> verified_today t1" by blast
  obtain outs1 where r: "run_verification obs (t1, s) = ((t', s'), outs1)" and o: "outs = out # outs1"
    using Cons.prems(3) by (auto simp: v split: prod.splits)
  from Cons.IH [OF c q r rest] show ?case by (simp add: o mark_calls_Cons m st)
qed

lemma short_run:
  assumes "X \<noteq> ''Unknown''" and "candidate_name t = X"
    and "\<forall>ob\<in>set obs. detected_name ob = X \<and> now ob - candidate_start t < 3000000000"
  shows "\<exists>outs. run_verification obs (t, s) = ((t, s), outs) \<and> mark_calls outs = []"
  using assms(3)
proof (induction obs)
  case Nil
  then show ?case by simp
next
  case (Cons ob obs)
  then obtain outs where "run_verification obs (t, s) = ((t, s), outs)" "mark_calls outs = []" by auto
  moreover have "verification ob (t, s) = ((t, s), \<lparr>shown = Some (Verifying (candidate_name t)), mark_call = None\<rparr>)"
    using verification_verifying [of ob t s] assms(1,2) Cons.prems by simp
  ultimately show ?case by (simp add: mark_calls_Cons)
qed

lemma one_call_run:
  assumes "X \<noteq> ''Unknown''" and "\<forall>ob\<in>set obs. detected_name ob = X"
  shows "candidate_name t = X \<Longrightarrow> \<not> verified_today t \<Longrightarrow> X \<notin> attendance_set s \<Longrightarrow>
     \<exists>ob\<in>set obs. 3000000000 \<le> now ob - candidate_start t \<Longrightarrow>
     run_verification obs (t, s) = ((t', s'), outs) \<Longrightarrow>
     \<exists>r. mark_calls outs = [(X, r)]"
  using assms(2)
proof (induction obs arbitrary: outs)
  case Nil
  then show ?case by simp
next
  case (Cons ob obs)
  from Cons.prems have d: "detected_name ob = X" and rest: "\<forall>ob\<in>set obs. detected_name ob = X" by simp_all
  show ?case
  proof (cases "3000000000 \<le> now ob - candidate_start t")
    case True
    let ?m = "markAttendance (env ob) X s"
    have v: "verification ob (t, s) = ((t\<lparr>verified_today := True\<rparr>, fst ?m),
        \<lparr>shown = Some (Successful X), mark_call = Some (X, snd ?m)\<rparr>)"
      using verification_mark [of ob t s] assms(1) Cons.prems(1,2,3) d True by simp
    obtain outs1 where r: "run_verification obs (t\<lparr>verified_today := True\<rparr>, fst ?m) = ((t', s'), outs1)"
      and o: "outs = \<lparr>shown = Some (Successful X), mark_call = Some (X, snd ?m)\<rparr> # outs1"
      using Cons.prems(5) by (auto simp: v split: prod.splits)
    have "mark_calls outs1 = []"
      using quiet_run [OF assms(1) rest _ _ r] Cons.prems(1) by simp
    then show ?thesis by (simp add: o mark_calls_Cons)
  next
    case False
    then have short: "now ob - candidate_start t < 3000000000" by simp
    have v: "verification ob (t, s) = ((t, s), \<lparr>shown = Some (Verifying (candidate_name t)), mark_call = None\<rparr>)"
      using verification_verifying [of ob t s] assms(1) Cons.prems(1) d short by simp
    obtain outs1 where r: "run_verification obs (t, s) = ((t', s'), outs1)"
      and o: "outs = \<lparr>shown = Some (Verifying (candidate_name t)), mark_call = None\<rparr> # outs1"
      using Cons.prems(5) by (auto simp: v split: prod.splits)
    from Cons.prems(4) False have ex: "\<exists>ob\<in>set obs. 3000000000 \<le> now ob - candidate_start t" by auto
    from Cons.IH [OF Cons.prems(1,2,3) ex r rest] show ?thesis by (simp add: o mark_calls_Cons)
  qed
qed

subsection \<open>Dwell\<close>

text \<open>
  C3. The claim: a streak of one identity shorter than three seconds causes no
  commit and no write to the cooldown table, and a streak of at least three
  seconds causes exactly one mark attempt. For an identity that is already in the
  today-set the loop tests \<open>attendance_set.count\<close> before it would call
  \<open>markAttendance\<close>: Bob, marked earlier today, is seen for four seconds, the banner
  for a marked identity is drawn in every frame from the third second on, and
  \<open>markAttendance\<close> is never called, nor is the cooldown table written.
\<close>

theorem marked_identity_gets_no_attempt:
  "''Bob'' \<in> attendance_set (session {''Bob''})
   \<and> last_mark_time (session {''Bob''}) ''Bob'' = None
   \<and> run_verification [sees ''Bob'' 0, sees ''Bob'' 3000000000, sees ''Bob'' 4000000000]
        (tracking_init, session {''Bob''})
     = ((\<lparr>candidate_name = ''Bob'', candidate_start = 0, verified_today = True\<rparr>, session {''Bob''}),
        [\<lparr>shown = None, mark_call = None\<rparr>,
         \<lparr>shown = Some (Marked_for_today ''Bob''), mark_call = None\<rparr>,
         \<lparr>shown = Some (Marked_for_today ''Bob''), mark_call = None\<rparr>])"
  by (simp add: verification_def sees_def tracking_init_def session_def duration_seconds_def
      signed_divide_int_def)

text \<open>
  C3, as the code has it. A streak is a frame that makes \<open>X\<close> the candidate,
  followed by frames that all detect \<open>X\<close>. While every frame is less than three
  seconds after the first, nothing is called and the system (ledger, today-set,
  cooldown table) is unchanged. If \<open>X\<close> is already in the today-set, the same holds
  however long the streak lasts. If \<open>X\<close> is not in the today-set and some frame comes
  three seconds or more after the first, \<open>markAttendance\<close> is called exactly once,
  for \<open>X\<close>.
\<close>

theorem dwell_requirement:
  assumes "X \<noteq> ''Unknown''" and "candidate_name t \<noteq> X"
    and "detected_name ob0 = X" and "\<forall>ob\<in>set obs. detected_name ob = X"
    and "run_verification (ob0 # obs) (t, s) = ((t', s'), outs)"
  shows "((\<forall>ob\<in>set obs. now ob - now ob0 < 3000000000) \<longrightarrow> s' = s \<and> mark_calls outs = [])
       \<and> (X \<in> attendance_set s \<longrightarrow> s' = s \<and> mark_calls outs = [])
       \<and> ((\<exists>ob\<in>set obs. 3000000000 \<le> now ob - now ob0) \<and> X \<notin> attendance_set s
            \<longrightarrow> (\<exists>r. mark_calls outs = [(X, r)]))"
proof -
  let ?t0 = "\<lparr>candidate_name = X, candidate_start = now ob0, verified_today = False\<rparr>"
  have v: "verification ob0 (t, s) = ((?t0, s), \<lparr>shown = None, mark_call = None\<rparr>)"
    using verification_new_candidate [of ob0 t s] assms(1,2,3) by simp
  obtain outs1 where r: "run_verification obs (?t0, s) = ((t', s'), outs1)"
    and o: "outs = \<lparr>shown = None, mark_call = None\<rparr> # outs1"
    using assms(5) by (auto simp: v split: prod.splits)
  have c: "mark_calls outs = mark_calls outs1" by (simp add: o mark_calls_Cons)
  have "s' = s \<and> mark_calls outs = []" if "\<forall>ob\<in>set obs. now ob - now ob0 < 3000000000"
  proof -
    have "\<forall>ob\<in>set obs. detected_name ob = X \<and> now ob - candidate_start ?t0 < 3000000000"
      using that assms(4) by simp
    from short_run [OF assms(1) _ this, of s] r show ?thesis by (auto simp: c)
  qed
  moreover have "s' = s \<and> mark_calls outs = []" if "X \<in> attendance_set s"
    using quiet_run [OF assms(1,4) _ _ r] that by (simp add: c)
  moreover have "\<exists>r. mark_calls outs = [(X, r)]"
    if "(\<exists>ob\<in>set obs. 3000000000 \<le> now ob - now ob0) \<and> X \<notin> attendance_set s"
    using one_call_run [OF assms(1,4) _ _ _ _ r] that by (simp add: c)
  ultimately show ?thesis by blast
qed

lemma run_short_ex:
  "run_verification [sees ''Alice'' 0, sees ''Alice'' 1000000000, sees ''Alice'' 2900000000]
        (tracking_init, session {})
     = ((\<lparr>candidate_name = ''Alice'', candidate_start = 0, verified_today = False\<rparr>, session {}),
        [\<lparr>shown = None, mark_call = None\<rparr>,
         \<lparr>shown = Some (Verifying ''Alice''), mark_call = None\<rparr>,
         \<lparr>shown = Some (Verifying ''Alice''), mark_call = None\<rparr>])"
  by (simp add: verification_def sees_def tracking_init_def session_def duration_seconds_def
      signed_divide_int_def)

lemma run_long_ex:
  "run_verification [sees ''Alice'' 0, sees ''Alice'' 2000000000, sees ''Alice'' 3000000000,
                     sees ''Alice'' 3040000000, sees ''Alice'' 5000000000]
        (tracking_init, session {})
     = ((\<lparr>candidate_name = ''Alice'', candidate_start = 0, verified_today = True\<rparr>,
         (session {})\<lparr>ledger := ''Alice,2024-05-06,Mon'' @ [CHR 0x0A], attendance_set := {''Alice''},
            last_mark_time := [''Alice'' \<mapsto> 3000000000]\<rparr>),
        [\<lparr>shown = None, mark_call = None\<rparr>,
         \<lparr>shown = Some (Verifying ''Alice''), mark_call = None\<rparr>,
         \<lparr>shown = Some (Successful ''Alice''),
          mark_call = Some (''Alice'', Appended (''Alice'', ''2024-05-06'', ''Mon''))\<rparr>,
         \<lparr>shown = Some (Marked_for_today ''Alice''), mark_call = None\<rparr>,
         \<lparr>shown = Some (Marked_for_today ''Alice''), mark_call = None\<rparr>])"
  by (simp add: verification_def sees_def tracking_init_def session_def duration_seconds_def
      signed_divide_int_def markAttendance_def clock_def getCurrentDay_1 record_line_def)

lemma run_marked_ex:
  "run_verification [sees ''Bob'' 0, sees ''Bob'' 3000000000, sees ''Bob'' 4000000000]
        (tracking_init, session {''Bob''})
     = ((\<lparr>candidate_name = ''Bob'', candidate_start = 0, verified_today = True\<rparr>, session {''Bob''}),
        [\<lparr>shown = None, mark_call = None\<rparr>,
         \<lparr>shown = Some (Marked_for_today ''Bob''), mark_call = None\<rparr>,
         \<lparr>shown = Some (Marked_for_today ''Bob''), mark_call = None\<rparr>])"
  by (simp add: verification_def sees_def tracking_init_def session_def duration_seconds_def
      signed_divide_int_def)

theorem dwell_requirement_witness:
  "mark_calls (snd (run_verification [sees ''Alice'' 0, sees ''Alice'' 1000000000, sees ''Alice'' 2900000000]
        (tracking_init, session {}))) = []
   \<and> mark_calls (snd (run_verification [sees ''Bob'' 0, sees ''Bob'' 3000000000, sees ''Bob'' 4000000000]
        (tracking_init, session {''Bob''}))) = []
   \<and> (\<exists>r. mark_calls (snd (run_verification [sees ''Alice'' 0, sees ''Alice'' 2000000000,
          sees ''Alice'' 3000000000, sees ''Alice'' 3040000000, sees ''Alice'' 5000000000]
        (tracking_init, session {}))) = [(''Alice'', r)])"
proof -
  have a: "''Alice'' \<noteq> ''Unknown''" "candidate_name tracking_init \<noteq> ''Alice''"
    "detected_name (sees ''Alice'' 0) = ''Alice''"
    and b: "''Bob'' \<noteq> ''Unknown''" "candidate_name tracking_init \<noteq> ''Bob''"
    "detected_name (sees ''Bob'' 0) = ''Bob''"
    by (simp_all add: tracking_init_def sees_def)
  have short: "\<forall>ob\<in>set [sees ''Alice'' 1000000000, sees ''Alice'' 2900000000]. detected_name ob = ''Alice''"
    "\<forall>ob\<in>set [sees ''Alice'' 1000000000, sees ''Alice'' 2900000000]. now ob - now (sees ''Alice'' 0) < 3000000000"
    by (simp_all add: sees_def)
  have marked: "\<forall>ob\<in>set [sees ''Bob'' 3000000000, sees ''Bob'' 4000000000]. detected_name ob = ''Bob''"
    "''Bob'' \<in> attendance_set (session {''Bob''})"
    by (simp_all add: sees_def session_def)
  have long: "\<forall>ob\<in>set [sees ''Alice'' 2000000000, sees ''Alice'' 3000000000, sees ''Alice'' 3040000000,
        sees ''Alice'' 5000000000]. detected_name ob = ''Alice''"
    "(\<exists>ob\<in>set [sees ''Alice'' 2000000000, sees ''Alice'' 3000000000, sees ''Alice'' 3040000000,
        sees ''Alice'' 5000000000]. 3000000000 \<le> now ob - now (sees ''Alice'' 0))
      \<and> ''Alice'' \<notin> attendance_set (session {})"
    by (simp_all add: sees_def session_def)
  from dwell_requirement [OF a short(1) run_short_ex] short(2)
  have 1: "mark_calls (snd (run_verification [sees ''Alice'' 0, sees ''Alice'' 1000000000, sees ''Alice'' 2900000000]
        (tracking_init, session {}))) = []"
    unfolding run_short_ex by simp
  from dwell_requirement [OF b marked(1) run_marked_ex] marked(2)
  have 2: "mark_calls (snd (run_verification [sees ''Bob'' 0, sees ''Bob'' 3000000000, sees ''Bob'' 4000000000]
        (tracking_init, session {''Bob''}))) = []"
    unfolding run_marked_ex by simp
  from dwell_requirement [OF a long(1) run_long_ex] long(2)
  have 3: "\<exists>r. mark_calls (snd (run_verification [sees ''Alice'' 0, sees ''Alice'' 2000000000,
          sees ''Alice'' 3000000000, sees ''Alice'' 3040000000, sees ''Alice'' 5000000000]
        (tracking_init, session {}))) = [(''Alice'', r)]"
    unfolding run_long_ex by (simp only: snd_conv) blast
  from 1 2 3 show ?thesis by blast
qed

text \<open>
  C5. The claim: once a streak has produced the success status, every later frame
  of the same streak shows that status again and does not call the ledger again.
  The loop has a branch that redraws the success banner when \<open>verified_today\<close> is
  set, but it comes after the test of the today-set, into which \<open>markAttendance\<close> has
  just inserted the identity: the success banner is drawn in one frame, and from
  the next frame on the banner for an identity marked earlier is drawn
  (\<open>success_is_followed_by_marked\<close> for every frame). The ledger is not called again.
\<close>

theorem success_banner_shown_once:
  "map shown (snd (run_verification [sees ''Alice'' 0, sees ''Alice'' 2000000000, sees ''Alice'' 3000000000,
                     sees ''Alice'' 3040000000, sees ''Alice'' 5000000000] (tracking_init, session {})))
     = [None, Some (Verifying ''Alice''), Some (Successful ''Alice''),
        Some (Marked_for_today ''Alice''), Some (Marked_for_today ''Alice'')]
   \<and> mark_calls (snd (run_verification [sees ''Alice'' 0, sees ''Alice'' 2000000000, sees ''Alice'' 3000000000,
                     sees ''Alice'' 3040000000, sees ''Alice'' 5000000000] (tracking_init, session {})))
     = [(''Alice'', Appended (''Alice'', ''2024-05-06'', ''Mon''))]"
  unfolding run_long_ex by (simp add: mark_calls_Cons)

lemma success_is_followed_by_marked:
  assumes "verification ob (t, s) = ((t1, s1), out)"
    and "mark_call out = Some (X, r)" and "r \<noteq> Cooldown"
    and "detected_name ob' = X" and "now ob \<le> now ob'"
  shows "shown out = Some (Successful X)
       \<and> shown (snd (verification ob' (t1, s1))) = Some (Marked_for_today X)
       \<and> mark_call (snd (verification ob' (t1, s1))) = None"
proof -
  from assms(1,2) have d: "detected_name ob \<noteq> ''Unknown''" and c: "candidate_name t = detected_name ob"
    and l: "3000000000 \<le> now ob - candidate_start t" and n: "candidate_name t \<notin> attendance_set s"
    and nv: "\<not> verified_today t"
    by (auto simp: verification_def Let_def duration_seconds_ge_3 split: if_splits prod.splits)
  from verification_mark [OF d c l n nv] assms(1,2)
  have t1: "t1 = t\<lparr>verified_today := True\<rparr>" and X: "X = candidate_name t"
    and m: "markAttendance (env ob) X s = (s1, r)" and sh: "shown out = Some (Successful X)"
    by auto
  from markAttendance_cases [OF m] assms(3) have "X \<in> attendance_set s1" by auto
  moreover have "3000000000 \<le> now ob' - candidate_start t1" using l assms(5) by (simp add: t1)
  ultimately show ?thesis
    using verification_marked [of ob' t1 s1] assms(4) d c X sh by (simp add: t1)
qed

lemma recognize_self: "recognizeFace [(n, uniform 90)] (uniform 90) = n"
proof -
  have "mse (uniform 90) (uniform 90) = 0" by (simp add: px_eval)
  then show ?thesis using DBL_MAX_large by (simp add: recognizeFace_def recognizeFace_thr_def)
qed

lemma construct_empty_name:
  "AttendanceSystem \<lparr>today = ''2024-05-06'', cascade_loads = True, ledger_content = [],
       ledger_opens = True, photos = Some [photo ''_1'' 90],
       visit_rank = (\<lambda>name. 0)\<rparr>
     = Inr ((session {})\<lparr>known_faces := [([], uniform 90)]\<rparr>)"
  by (simp add: AttendanceSystem_def loadAttendance_def loadKnownFaces_def load_entry_def photo_def session_def
      isImage_jpg inferName_ex uniform_not_Nil visiting_order_single)

text \<open>
  C6. The claim: after (\<open>X\<close>, Unknown, \<open>X\<close>) the dwell timer restarts at the third
  frame. The loop starts with the candidate \<open>Unknown\<close> but resets it with
  \<open>candidate_name.clear()\<close>, and \<open>inferName\<close> gives the empty name to a photo whose stem
  begins with a separator. For that identity the cleared candidate equals the
  detected name, \<open>candidate_start\<close> is kept, and attendance is marked in the first
  frame after the interruption. For every other identity the timer restarts
  (\<open>named_streak_restarts\<close>).
\<close>

theorem unnamed_face_keeps_its_timer:
  "AttendanceSystem \<lparr>today = ''2024-05-06'', cascade_loads = True, ledger_content = [],
       ledger_opens = True, photos = Some [photo ''_1'' 90],
       visit_rank = (\<lambda>name. 0)\<rparr>
     = Inr ((session {})\<lparr>known_faces := [([], uniform 90)]\<rparr>)
   \<and> runAttendance [shot [uniform 90] 0, shot [] 1000000000, shot [uniform 90] 4000000000]
        ((session {})\<lparr>known_faces := [([], uniform 90)]\<rparr>)
     = ((session {})\<lparr>known_faces := [([], uniform 90)], ledger := '',2024-05-06,Mon'' @ [CHR 0x0A],
           attendance_set := {[]}, last_mark_time := [[] \<mapsto> 4000000000]\<rparr>,
        [\<lparr>shown = None, mark_call = None\<rparr>,
         \<lparr>shown = None, mark_call = None\<rparr>,
         \<lparr>shown = Some (Successful []), mark_call = Some ([], Appended ([], ''2024-05-06'', ''Mon''))\<rparr>])"
proof -
  have "runAttendance [shot [uniform 90] 0, shot [] 1000000000, shot [uniform 90] 4000000000]
        ((session {})\<lparr>known_faces := [([], uniform 90)]\<rparr>)
     = ((session {})\<lparr>known_faces := [([], uniform 90)], ledger := '',2024-05-06,Mon'' @ [CHR 0x0A],
           attendance_set := {[]}, last_mark_time := [[] \<mapsto> 4000000000]\<rparr>,
        [\<lparr>shown = None, mark_call = None\<rparr>,
         \<lparr>shown = None, mark_call = None\<rparr>,
         \<lparr>shown = Some (Successful []), mark_call = Some ([], Appended ([], ''2024-05-06'', ''Mon''))\<rparr>])"
    by (simp add: runAttendance_def observe_def detect_def shot_def recognize_self session_def
        verification_def tracking_init_def duration_seconds_def signed_divide_int_def
        markAttendance_def clock_def getCurrentDay_1 record_line_def)
  with construct_empty_name show ?thesis by (rule conjI)
qed

lemma named_streak_restarts:
  assumes "X \<noteq> ''Unknown''" and "X \<noteq> []"
    and "detected_name ob2 = ''Unknown''" and "detected_name ob3 = X"
  shows "run_verification [ob2, ob3] (t, s) =
     ((\<lparr>candidate_name = X, candidate_start = now ob3, verified_today = False\<rparr>, s),
      [\<lparr>shown = None, mark_call = None\<rparr>, \<lparr>shown = None, mark_call = None\<rparr>])"
  using assms by (simp add: verification_def)

subsection \<open>Calls made by the loop\<close>

lemma verification_call:
  assumes "verification ob (t, s) = ((t', s'), out)"
  shows "(mark_call out = None \<and> s' = s)
       \<or> (\<exists>r. mark_call out = Some (detected_name ob, r) \<and> detected_name ob \<noteq> ''Unknown''
             \<and> markAttendance (env ob) (detected_name ob) s = (s', r))"
  using assms by (auto simp: verification_def Let_def split: if_splits prod.splits)

lemma verification_candidate:
  "candidate_name (fst (fst (verification ob (t, s))))
     = (if detected_name ob = ''Unknown'' then [] else detected_name ob)"
  by (simp add: verification_def Let_def split: prod.splits)

lemma run_verification_calls:
  "run_verification obs (t, s) = ((t', s'), outs) \<Longrightarrow>
     (\<forall>(n, r)\<in>set (mark_calls outs). n \<noteq> ''Unknown'' \<and> (\<forall>a. r = Appended a \<longrightarrow> fst a = n))
   \<and> ledger s' = ledger s @ concat (map record_line (appended (map snd (mark_calls outs))))"
proof (induction obs arbitrary: t s outs)
  case Nil
  then show ?case by simp
next
  case (Cons ob obs)
  obtain t1 s1 out where v: "verification ob (t, s) = ((t1, s1), out)"
    by (metis surj_pair)
  obtain outs1 where r: "run_verification obs (t1, s1) = ((t', s'), outs1)" and o: "outs = out # outs1"
    using Cons.prems by (auto simp: v split: prod.splits)
  note IH = Cons.IH [OF r]
  from verification_call [OF v] show ?case
  proof
    assume "mark_call out = None \<and> s1 = s"
    then show ?thesis using IH by (simp add: o mark_calls_Cons)
  next
    assume "\<exists>r. mark_call out = Some (detected_name ob, r) \<and> detected_name ob \<noteq> ''Unknown''
             \<and> markAttendance (env ob) (detected_name ob) s = (s1, r)"
    then obtain r where c: "mark_call out = Some (detected_name ob, r)"
      and u: "detected_name ob \<noteq> ''Unknown''"
      and m: "markAttendance (env ob) (detected_name ob) s = (s1, r)" by blast
    show ?thesis
    proof (cases "\<exists>a. r = Appended a")
      case True
      then obtain a where a: "r = Appended a" by blast
      from markAttendance_Appended [OF m [unfolded a]] IH u
      show ?thesis by (simp add: o mark_calls_Cons c a)
    next
      case False
      then have "appended (r # map snd (mark_calls outs1)) = appended (map snd (mark_calls outs1))"
        by (cases r) auto
      moreover have "ledger s1 = ledger s" using markAttendance_not_Appended [OF m] False by blast
      ultimately show ?thesis using IH u False by (simp add: o mark_calls_Cons c)
    qed
  qed
qed

text \<open>
  C10. In every run of the loop of main.cpp, no call of \<open>markAttendance\<close> has the
  argument \<open>Unknown\<close>, the attendance file grows by exactly the records those calls
  report as appended, none of which has the identity \<open>Unknown\<close>, and after every round
  the candidate is the detected name, or cleared when the frame gave \<open>Unknown\<close>.
\<close>

theorem unknown_is_never_marked:
  assumes "runAttendance frames s = (s', outs)"
  shows "(\<forall>(n, r)\<in>set (mark_calls outs). n \<noteq> ''Unknown'')
       \<and> ledger s' = ledger s @ concat (map record_line (appended (map snd (mark_calls outs))))
       \<and> (\<forall>(n, d, w)\<in>set (appended (map snd (mark_calls outs))). n \<noteq> ''Unknown'')
       \<and> (\<forall>ob t0 s0. candidate_name (fst (fst (verification ob (t0, s0))))
            = (if detected_name ob = ''Unknown'' then [] else detected_name ob))"
proof -
  from assms obtain t' where
    r: "run_verification (map (observe (known_faces s)) frames) (tracking_init, s) = ((t', s'), outs)"
    by (auto simp: runAttendance_def split: prod.splits)
  note calls = run_verification_calls [OF r]
  have "n \<noteq> ''Unknown''" if "(n, d, w) \<in> set (appended (map snd (mark_calls outs)))" for n d w
  proof -
    from that have "Appended (n, d, w) \<in> snd ` set (mark_calls outs)" by (simp add: appended_set)
    then obtain m where "(m, Appended (n, d, w)) \<in> set (mark_calls outs)" by force
    with calls show ?thesis by fastforce
  qed
  then show ?thesis using calls verification_candidate by auto
qed

lemma run_ex:
  "runAttendance [shot [uniform 90] 0, shot [] 1000000000, shot [uniform 90] 2000000000,
                  shot [uniform 90] 5000000000] (session {})
     = ((session {})\<lparr>ledger := ''Alice,2024-05-06,Mon'' @ [CHR 0x0A],
           attendance_set := {''Alice''}, last_mark_time := [''Alice'' \<mapsto> 5000000000]\<rparr>,
        [\<lparr>shown = None, mark_call = None\<rparr>,
         \<lparr>shown = None, mark_call = None\<rparr>,
         \<lparr>shown = None, mark_call = None\<rparr>,
         \<lparr>shown = Some (Successful ''Alice''),
          mark_call = Some (''Alice'', Appended (''Alice'', ''2024-05-06'', ''Mon''))\<rparr>])"
  by (simp add: runAttendance_def observe_def detect_def shot_def recognize_self session_def
        verification_def tracking_init_def duration_seconds_def signed_divide_int_def
        markAttendance_def clock_def getCurrentDay_1 record_line_def)

theorem unknown_is_never_marked_witness:
  "fst (hd (mark_calls (snd (runAttendance [shot [uniform 90] 0, shot [] 1000000000,
        shot [uniform 90] 2000000000, shot [uniform 90] 5000000000] (session {}))))) \<noteq> ''Unknown''
   \<and> ledger (fst (runAttendance [shot [uniform 90] 0, shot [] 1000000000, shot [uniform 90] 2000000000,
                  shot [uniform 90] 5000000000] (session {})))
       = ''Alice,2024-05-06,Mon'' @ [CHR 0x0A]"
proof -
  note T = unknown_is_never_marked [OF run_ex]
  have c: "mark_calls [\<lparr>shown = None, mark_call = None\<rparr>,
         \<lparr>shown = None, mark_call = None\<rparr>,
         \<lparr>shown = None, mark_call = None\<rparr>,
         \<lparr>shown = Some (Successful ''Alice''),
          mark_call = Some (''Alice'', Appended (''Alice'', ''2024-05-06'', ''Mon''))\<rparr>]
        = [(''Alice'', Appended (''Alice'', ''2024-05-06'', ''Mon''))]"
    by (simp add: mark_calls_Cons)
  from T have "\<forall>(n, r)\<in>set [(''Alice'', Appended (''Alice'', ''2024-05-06'', ''Mon''))]. n \<noteq> ''Unknown''"
    unfolding c by (rule conjunct1)
  then have 1: "fst (hd (mark_calls (snd (runAttendance [shot [uniform 90] 0, shot [] 1000000000,
        shot [uniform 90] 2000000000, shot [uniform 90] 5000000000] (session {}))))) \<noteq> ''Unknown''"
    unfolding run_ex snd_conv c by simp
  from T have "ledger ((session {})\<lparr>ledger := ''Alice,2024-05-06,Mon'' @ [CHR 0x0A],
           attendance_set := {''Alice''}, last_mark_time := [''Alice'' \<mapsto> 5000000000]\<rparr>)
      = ledger (session {}) @ concat (map record_line (appended (map snd [(''Alice'', Appended (''Alice'', ''2024-05-06'', ''Mon''))])))"
    unfolding c by blast
  then have 2: "ledger (fst (runAttendance [shot [uniform 90] 0, shot [] 1000000000, shot [uniform 90] 2000000000,
                  shot [uniform 90] 5000000000] (session {}))) = ''Alice,2024-05-06,Mon'' @ [CHR 0x0A]"
    unfolding run_ex by simp
  from 1 2 show ?thesis by (rule conjI)
qed

text \<open>
  C9. The claim: when the enrollment load leaves the gallery empty, the system
  fails fatally at startup. The earlier variant loads the photos when attendance
  mode is started; on an empty gallery its \<open>runAttendance\<close> prints a message and
  returns, the menu goes on to serve the next choices, and the process ends with
  \<open>return 0\<close>.
\<close>

theorem legacy_empty_gallery_returns_to_menu:
  "legacy_loadKnownFaces [] = []
   \<and> legacy_menu [Legacy_start (Some []) True [], Legacy_view, Legacy_exit]
        \<lparr>lg_ledger = [], lg_attendance_set = {}, lg_current_date = ''2024-5-6''\<rparr>
     = (Returned_0, [No_known_faces], [{}],
        \<lparr>lg_ledger = [], lg_attendance_set = {}, lg_current_date = ''2024-5-6''\<rparr>)"
  by (simp add: legacy_runAttendance_def legacy_loadKnownFaces_def)

text \<open>
  C9, as the code has it. In main.cpp a directory loop that leaves the gallery
  empty ends the process in the constructor, before the menu (with the photos
  directory present, the error is \<open>No_usable_faces\<close> unless the cascade already failed
  to load), and a constructed system has a non-empty gallery. In the earlier
  variant \<open>runAttendance\<close> returns with the system unchanged, without entering the
  loop over the frames.
\<close>

theorem empty_gallery_is_never_matched:
  "(photos st = Some entries \<and> fst (fold load_entry entries ([], 0)) = []
      \<longrightarrow> main_program st cs = Inl (if cascade_loads st then No_usable_faces else Cascade_load_failed))
   \<and> (\<forall>s. AttendanceSystem st = Inr s \<longrightarrow> known_faces s \<noteq> [])
   \<and> (legacy_loadKnownFaces files = []
      \<longrightarrow> legacy_runAttendance (Some files) cam frames ls = Some (ls, No_known_faces))"
proof (intro conjI impI allI)
  assume a: "photos st = Some entries \<and> fst (fold load_entry entries ([], 0)) = []"
  obtain faces loaded where f: "fold load_entry entries ([], 0) = (faces, loaded)"
    by (cases "fold load_entry entries ([], 0)")
  with a have "faces = []" by simp
  with fold_load_entry_count [OF f] have "loaded = 0" by simp
  then show "main_program st cs = Inl (if cascade_loads st then No_usable_faces else Cascade_load_failed)"
    using a f by (simp add: main_program_def AttendanceSystem_def loadKnownFaces_def loadAttendance_def)
next
  fix s assume "AttendanceSystem st = Inr s"
  then show "known_faces s \<noteq> []" by (rule AttendanceSystem_Inr)
next
  assume "legacy_loadKnownFaces files = []"
  then show "legacy_runAttendance (Some files) cam frames ls = Some (ls, No_known_faces)"
    by (simp add: legacy_runAttendance_def)
qed

theorem empty_gallery_is_never_matched_witness:
  "main_program \<lparr>today = ''2024-05-06'', cascade_loads = True, ledger_content = [],
       ledger_opens = True, photos = Some [(photo ''Alice_1'' 90)\<lparr>extracted_face := []\<rparr>],
       visit_rank = (\<lambda>name. 0)\<rparr>
       [Start True [shot [uniform 90] 0]] = Inl No_usable_faces
   \<and> known_faces ((session {})\<lparr>known_faces := [([], uniform 90)]\<rparr>) \<noteq> []
   \<and> legacy_runAttendance (Some [\<lparr>pf_regular = True, pf_stem = ''notes'', pf_image = []\<rparr>]) True []
        \<lparr>lg_ledger = [], lg_attendance_set = {}, lg_current_date = ''2024-5-6''\<rparr>
      = Some (\<lparr>lg_ledger = [], lg_attendance_set = {}, lg_current_date = ''2024-5-6''\<rparr>, No_known_faces)"
proof -
  let ?st = "\<lparr>today = ''2024-05-06'', cascade_loads = True, ledger_content = [],
       ledger_opens = True, photos = Some [(photo ''Alice_1'' 90)\<lparr>extracted_face := []\<rparr>],
       visit_rank = (\<lambda>name. 0)\<rparr>"
  let ?st2 = "\<lparr>today = ''2024-05-06'', cascade_loads = True, ledger_content = [],
       ledger_opens = True, photos = Some [photo ''_1'' 90],
       visit_rank = (\<lambda>name. 0)\<rparr>"
  let ?cs = "[Start True [shot [uniform 90] 0]]"
  let ?files = "[\<lparr>pf_regular = True, pf_stem = ''notes'', pf_image = []\<rparr>]"
  have h1: "photos ?st = Some [(photo ''Alice_1'' 90)\<lparr>extracted_face := []\<rparr>]
      \<and> fst (fold load_entry [(photo ''Alice_1'' 90)\<lparr>extracted_face := []\<rparr>] ([], 0)) = []"
    by (simp add: load_entry_def photo_def isImage_jpg)
  have h3: "legacy_loadKnownFaces ?files = []" by (simp add: legacy_loadKnownFaces_def)
  from empty_gallery_is_never_matched [of ?st "[(photo ''Alice_1'' 90)\<lparr>extracted_face := []\<rparr>]" ?cs] h1
  have 1: "main_program ?st ?cs = Inl No_usable_faces" by simp
  from empty_gallery_is_never_matched [of ?st2] construct_empty_name
  have 2: "known_faces ((session {})\<lparr>known_faces := [([], uniform 90)]\<rparr>) \<noteq> []" by blast
  from empty_gallery_is_never_matched [of _ _ _ ?files] h3
  have 3: "legacy_runAttendance (Some ?files) True []
        \<lparr>lg_ledger = [], lg_attendance_set = {}, lg_current_date = ''2024-5-6''\<rparr>
      = Some (\<lparr>lg_ledger = [], lg_attendance_set = {}, lg_current_date = ''2024-5-6''\<rparr>, No_known_faces)"
    by blast
  from 1 2 3 show ?thesis by blast
qed

subsection \<open>The earlier variant\<close>

lemma legacy_mse_le_255: assumes "length q \<le> 10000" shows "legacy_mse q g \<le> 255"
proof -
  have "length (absdiff q g) \<le> 10000" using assms by (simp add: length_absdiff)
  then have "255 * real (length (absdiff q g)) \<le> 255 * 10000" by simp
  with sum_px_le [of "absdiff q g"] have "sum_px (absdiff q g) \<le> 255 * 10000" by linarith
  then show ?thesis by (simp add: legacy_mse_def)
qed

lemma legacy_marks_at_first_sight:
  "legacy_frame_step known \<lparr>lf_faces = [roi], lf_opens = opens, lf_wday = wday\<rparr> s
     = legacy_markAttendance opens wday (legacy_recognizeFace roi known) s"
  by (simp add: legacy_frame_step_def)

end
